theory Spec2Isabelle
  imports Complex_Main
begin

section \<open>Values of the host language\<close>

text \<open>
  The quiz page (\<^verbatim>\<open>src/app/quiz/page.tsx\<close>) keeps numbers in arrays, adds them up and
  writes them to the browser's storage as text. The point values are integers. The
  numbers of the source are doubles: their addition is exact on integers whose
  magnitude stays below \<open>2 ^ 53\<close> (lemmas \<open>double_plus_of_nat\<close> and
  \<open>double_sum_of_nat\<close> below, on the doubles of the progress bar), and \<open>toString\<close>
  prints an integer below \<open>10 ^ 21\<close> in plain decimal notation. The model keeps the
  scores as \<open>int\<close> and names that range.
\<close>

datatype number = NaN | Finite int

definition MAX_SAFE_INTEGER :: int where
  "MAX_SAFE_INTEGER = 2 ^ 53 - 1"

definition isSafeInteger :: "int \<Rightarrow> bool" where
  "isSafeInteger n = (- MAX_SAFE_INTEGER \<le> n \<and> n \<le> MAX_SAFE_INTEGER)"

text \<open>
  An element of a \<^verbatim>\<open>number[]\<close> at run time: a number, the value \<^verbatim>\<open>undefined\<close>, or no
  element at all (a hole of a sparse array).
\<close>

datatype slot = Hole | Undefined | Points int

text \<open>\<^verbatim>\<open>[...answers]\<close>: the spread iterates the array, and a hole is read as \<^verbatim>\<open>undefined\<close>.\<close>

fun spread_slot :: "slot \<Rightarrow> slot" where
  "spread_slot Hole = Undefined"
| "spread_slot Undefined = Undefined"
| "spread_slot (Points p) = Points p"

definition spread :: "slot list \<Rightarrow> slot list" where
  "spread xs = map spread_slot xs"

text \<open>
  \<^verbatim>\<open>newAnswers[i] = points\<close>: inside the array the slot is overwritten; beyond its end
  the array grows to length \<open>i + 1\<close> and the slots in between are holes.
\<close>

definition assign :: "slot list \<Rightarrow> nat \<Rightarrow> int \<Rightarrow> slot list" where
  "assign xs i v =
     (if i < length xs then xs[i := Points v]
      else xs @ replicate (i - length xs) Hole @ [Points v])"

text \<open>\<^verbatim>\<open>xs[i]\<close> read as a number: \<open>None\<close> stands for \<^verbatim>\<open>undefined\<close>.\<close>

definition element :: "slot list \<Rightarrow> nat \<Rightarrow> int option" where
  "element xs i =
     (if i < length xs then (case xs ! i of Points p \<Rightarrow> Some p | _ \<Rightarrow> None) else None)"

text \<open>
  \<^verbatim>\<open>newAnswers.reduce((sum, score) => sum + score, 0)\<close>: \<open>reduce\<close> skips holes; a number
  plus \<^verbatim>\<open>undefined\<close> is \<^verbatim>\<open>NaN\<close>, and \<^verbatim>\<open>NaN\<close> stays.
\<close>

fun plus_slot :: "number \<Rightarrow> slot \<Rightarrow> number" where
  "plus_slot (Finite a) (Points b) = Finite (a + b)"
| "plus_slot (Finite a) Hole = Finite a"
| "plus_slot (Finite a) Undefined = NaN"
| "plus_slot NaN s = NaN"

definition reduce_sum :: "slot list \<Rightarrow> number" where
  "reduce_sum xs = foldl plus_slot (Finite 0) xs"

subsection \<open>Decimal text and JSON text\<close>

definition digit :: "nat \<Rightarrow> char" where
  "digit d = ''0123456789abcdef'' ! d"

fun digits :: "nat \<Rightarrow> string" where
  "digits n = (if n < 10 then [digit n] else digits (n div 10) @ [digit (n mod 10)])"

declare digits.simps [simp del]

fun toString :: "number \<Rightarrow> string" where
  "toString NaN = ''NaN''"
| "toString (Finite n) = (if n < 0 then CHR ''-'' # digits (nat (- n)) else digits (nat n))"

datatype json = JNull | JNumber int | JString string | JArray "json list"
  | JObject "(string \<times> json) list"

text \<open>How \<^verbatim>\<open>JSON.stringify\<close> quotes a string: the two-character escapes, then \<^verbatim>\<open>\u00hh\<close>
  for the other control characters.\<close>

definition escape :: "char \<Rightarrow> string" where
  "escape c =
     (if c = CHR 0x08 then [CHR 0x5C, CHR ''b'']
      else if c = CHR 0x09 then [CHR 0x5C, CHR ''t'']
      else if c = CHR 0x0A then [CHR 0x5C, CHR ''n'']
      else if c = CHR 0x0C then [CHR 0x5C, CHR ''f'']
      else if c = CHR 0x0D then [CHR 0x5C, CHR ''r'']
      else if c = CHR 0x22 then [CHR 0x5C, CHR 0x22]
      else if c = CHR 0x5C then [CHR 0x5C, CHR 0x5C]
      else if (of_char c :: nat) < 32
        then [CHR 0x5C, CHR ''u'', CHR ''0'', CHR ''0'',
              digit ((of_char c :: nat) div 16), digit ((of_char c :: nat) mod 16)]
      else [c])"

definition quote :: "string \<Rightarrow> string" where
  "quote s = CHR 0x22 # concat (map escape s) @ [CHR 0x22]"

fun join :: "string \<Rightarrow> string list \<Rightarrow> string" where
  "join sep [] = []"
| "join sep [x] = x"
| "join sep (x # y # ys) = x @ sep @ join sep (y # ys)"

fun stringify :: "json \<Rightarrow> string" where
  "stringify JNull = ''null''"
| "stringify (JNumber n) = toString (Finite n)"
| "stringify (JString s) = quote s"
| "stringify (JArray xs) = ''['' @ join '','' (map stringify xs) @ '']''"
| "stringify (JObject kvs) =
     ''{'' @ join '','' (map (\<lambda>kv. quote (fst kv) @ '':'' @ stringify (snd kv)) kvs) @ ''}''"

text \<open>Inside an array \<^verbatim>\<open>JSON.stringify\<close> prints a hole and \<^verbatim>\<open>undefined\<close> as \<^verbatim>\<open>null\<close>.\<close>

fun json_of_slot :: "slot \<Rightarrow> json" where
  "json_of_slot (Points p) = JNumber p"
| "json_of_slot Hole = JNull"
| "json_of_slot Undefined = JNull"

text \<open>A selection of the component's state: an identifier, or \<^verbatim>\<open>null\<close> while unset.\<close>

fun json_of_selection :: "string option \<Rightarrow> json" where
  "json_of_selection None = JNull"
| "json_of_selection (Some i) = JString i"

subsection \<open>Numbers that are not integers\<close>

text \<open>
  The progress bar divides and multiplies, and its numbers are doubles. A finite double
  is taken as the rational number it denotes. An operation on finite doubles gives the
  exact result rounded to the nearest double, a tie going to the even significand: 53
  significant bits, the smallest unit \<open>2 powi - 1074\<close>, and a result of magnitude
  \<open>2 powi 1024\<close> or more is infinite. Zero has no sign here; the only divisor that can
  be zero is a length, the positive zero.
\<close>

datatype double = DNaN | DInfinity bool | DFinite rat

text \<open>The position of the leading bit: \<open>2 ^ floor_log2 n \<le> n < 2 ^ (floor_log2 n + 1)\<close>.\<close>

fun floor_log2 :: "nat \<Rightarrow> nat" where
  "floor_log2 n = (if n < 2 then 0 else floor_log2 (n div 2) + 1)"

declare floor_log2.simps [simp del]

definition ceil_log2 :: "nat \<Rightarrow> nat" where
  "ceil_log2 m = (if m \<le> 1 then 0 else floor_log2 (m - 1) + 1)"

text \<open>For \<open>x > 0\<close>, the exponent \<open>e\<close> with \<open>2 powi e \<le> x < 2 powi (e + 1)\<close>.\<close>

definition binary_exponent :: "rat \<Rightarrow> int" where
  "binary_exponent x =
     (if 1 \<le> x then int (floor_log2 (nat \<lfloor>x\<rfloor>)) else - int (ceil_log2 (nat \<lceil>1 / x\<rceil>)))"

definition round_half_even :: "rat \<Rightarrow> int" where
  "round_half_even y =
     (let f = \<lfloor>y\<rfloor>; r = y - of_int f
      in if r < 1 / 2 then f else if 1 / 2 < r then f + 1 else if even f then f else f + 1)"

definition round_double :: "rat \<Rightarrow> double" where
  "round_double x =
     (if x = 0 then DFinite 0
      else
        (let e = binary_exponent \<bar>x\<bar>;
             u = 2 powi (max (e - 52) (- 1074));
             r = of_int (round_half_even (\<bar>x\<bar> / u)) * u
         in if 2 powi 1024 \<le> r then DInfinity (0 < x) else DFinite (sgn x * r)))"

fun double_plus :: "double \<Rightarrow> double \<Rightarrow> double" where
  "double_plus (DFinite a) (DFinite b) = round_double (a + b)"
| "double_plus (DInfinity s) (DInfinity t) = (if s = t then DInfinity s else DNaN)"
| "double_plus (DInfinity s) (DFinite b) = DInfinity s"
| "double_plus (DFinite a) (DInfinity t) = DInfinity t"
| "double_plus DNaN y = DNaN"
| "double_plus x DNaN = DNaN"

fun double_divide :: "double \<Rightarrow> double \<Rightarrow> double" where
  "double_divide (DFinite a) (DFinite b) =
     (if b = 0 then (if a = 0 then DNaN else DInfinity (0 < a)) else round_double (a / b))"
| "double_divide (DInfinity s) (DFinite b) = DInfinity (s = (0 \<le> b))"
| "double_divide (DFinite a) (DInfinity t) = DFinite 0"
| "double_divide (DInfinity s) (DInfinity t) = DNaN"
| "double_divide DNaN y = DNaN"
| "double_divide x DNaN = DNaN"

fun double_times :: "double \<Rightarrow> double \<Rightarrow> double" where
  "double_times (DFinite a) (DFinite b) = round_double (a * b)"
| "double_times (DInfinity s) (DFinite b) = (if b = 0 then DNaN else DInfinity (s = (0 < b)))"
| "double_times (DFinite a) (DInfinity t) = (if a = 0 then DNaN else DInfinity (t = (0 < a)))"
| "double_times (DInfinity s) (DInfinity t) = DInfinity (s = t)"
| "double_times DNaN y = DNaN"
| "double_times x DNaN = DNaN"

section \<open>Catalog data and the question bank\<close>

text \<open>\<^verbatim>\<open>src/lib/quiz/growth-stages.ts\<close>; the emoji are given as their UTF-8 bytes.\<close>

record GrowthStageConfig =
  stage_id :: string
  stage_name :: string
  stage_emoji :: string
  stage_description :: string
  stage_revenue :: string

definition growthStages :: "GrowthStageConfig list" where
  "growthStages =
     [\<lparr>stage_id = ''startup'', stage_name = ''Starting Up'',
       stage_emoji = [CHR 0xF0, CHR 0x9F, CHR 0x8C, CHR 0xB1],
       stage_description = ''You'' @ [CHR 0x27] @ ''re in the early stages, building your foundation and finding your first customers.'',
       stage_revenue = ''$0 - $1K/month''\<rparr>,
      \<lparr>stage_id = ''growing'', stage_name = ''Growing'',
       stage_emoji = [CHR 0xF0, CHR 0x9F, CHR 0x93, CHR 0x88],
       stage_description = ''You have some traction but need systems and consistency to scale further.'',
       stage_revenue = ''$1K - $5K/month''\<rparr>,
      \<lparr>stage_id = ''scaling'', stage_name = ''Scaling'',
       stage_emoji = [CHR 0xE2, CHR 0xAD, CHR 0x90],
       stage_description = ''You'' @ [CHR 0x27] @ ''re established and ready to optimize, delegate, and scale to the next level.'',
       stage_revenue = ''$5K+/month''\<rparr>]"

text \<open>
  A question as the page reads it: \<^verbatim>\<open>currentQuestion.question\<close>,
  \<^verbatim>\<open>currentQuestion.options\<close>, \<^verbatim>\<open>option.text\<close>, \<^verbatim>\<open>option.points\<close>.
\<close>

record answer_option =
  option_text :: string
  points :: int

record quiz_question =
  question :: string
  options :: "answer_option list"

text \<open>
  The question bank \<^verbatim>\<open>getQuestionsForPath\<close> (\<^verbatim>\<open>src/lib/quiz/questions\<close>) is not among the
  sources: it is a parameter of the model, a function from the two selections as the
  page passes them (an identifier, or \<^verbatim>\<open>null\<close> while unset) to the list of questions.
\<close>

type_synonym question_bank = "string option \<Rightarrow> string option \<Rightarrow> quiz_question list"

section \<open>The quiz page\<close>

datatype step = Intro | BusinessTypeStep | GrowthStageStep | Questions

text \<open>What the page asks of the browser, in the order of the calls.\<close>

datatype call = LocalStorage_removeItem string | LocalStorage_setItem string string
  | Router_push string

text \<open>
  The component's state (the five \<^verbatim>\<open>useState\<close> cells) and the part of the browser it
  acts on: the two storage areas of the Web Storage interface, the current route, and
  the record of its calls.
\<close>

record quiz =
  step :: step
  selectedBusinessType :: "string option"
  selectedGrowthStage :: "string option"
  currentQuestionIndex :: nat
  answers :: "slot list"
  localStorage :: "string \<rightharpoonup> string"
  sessionStorage :: "string \<rightharpoonup> string"
  route :: string
  calls :: "call list"

definition localStorage_removeItem :: "string \<Rightarrow> quiz \<Rightarrow> quiz" where
  "localStorage_removeItem k s =
     s\<lparr>localStorage := (localStorage s)(k := None),
       calls := calls s @ [LocalStorage_removeItem k]\<rparr>"

definition localStorage_setItem :: "string \<Rightarrow> string \<Rightarrow> quiz \<Rightarrow> quiz" where
  "localStorage_setItem k v s =
     s\<lparr>localStorage := (localStorage s)(k \<mapsto> v),
       calls := calls s @ [LocalStorage_setItem k v]\<rparr>"

definition router_push :: "string \<Rightarrow> quiz \<Rightarrow> quiz" where
  "router_push r s = s\<lparr>route := r, calls := calls s @ [Router_push r]\<rparr>"

text \<open>The page is mounted at \<^verbatim>\<open>/quiz\<close> with the initial values of its state cells.\<close>

definition mount :: "(string \<rightharpoonup> string) \<Rightarrow> (string \<rightharpoonup> string) \<Rightarrow> quiz" where
  "mount ls ss =
     \<lparr>step = Intro, selectedBusinessType = None, selectedGrowthStage = None,
      currentQuestionIndex = 0, answers = [],
      localStorage = ls, sessionStorage = ss, route = ''/quiz'', calls = []\<rparr>"

definition startQuiz :: "quiz \<Rightarrow> quiz" where
  "startQuiz s = s\<lparr>step := BusinessTypeStep\<rparr>"

definition selectBusinessType :: "string \<Rightarrow> quiz \<Rightarrow> quiz" where
  "selectBusinessType businessType s =
     s\<lparr>selectedBusinessType := Some businessType, step := GrowthStageStep\<rparr>"

definition selectGrowthStage :: "string \<Rightarrow> quiz \<Rightarrow> quiz" where
  "selectGrowthStage growthStage s =
     (let s1 = s\<lparr>selectedGrowthStage := Some growthStage\<rparr>;
          s2 = localStorage_removeItem ''focusFoundersQuizScore'' s1;
          s3 = localStorage_removeItem ''focusFoundersQuizAnswers'' s2;
          s4 = localStorage_setItem ''focusFoundersQuizPath''
                 (stringify (JObject
                    [(''businessType'', json_of_selection (selectedBusinessType s)),
                     (''growthStage'', JString growthStage)])) s3
      in s4\<lparr>currentQuestionIndex := 0, answers := [], step := Questions\<rparr>)"

text \<open>The inline handler of the link back to the business types.\<close>

definition backToBusinessType :: "quiz \<Rightarrow> quiz" where
  "backToBusinessType s = s\<lparr>step := BusinessTypeStep\<rparr>"

text \<open>
  The questions step. \<^verbatim>\<open>questions[currentQuestionIndex]\<close> is \<^verbatim>\<open>undefined\<close> out of
  range, and the page then fails on \<^verbatim>\<open>currentQuestion.question\<close> with a TypeError.
\<close>

definition questions_of :: "question_bank \<Rightarrow> quiz \<Rightarrow> quiz_question list" where
  "questions_of getQuestionsForPath s =
     getQuestionsForPath (selectedBusinessType s) (selectedGrowthStage s)"

definition currentQuestion :: "quiz_question list \<Rightarrow> quiz \<Rightarrow> quiz_question option" where
  "currentQuestion questions s =
     (if currentQuestionIndex s < length questions
      then Some (questions ! currentQuestionIndex s) else None)"

datatype js_error = TypeError

definition render_question :: "quiz_question list \<Rightarrow> quiz \<Rightarrow> js_error + quiz_question" where
  "render_question questions s =
     (case currentQuestion questions s of None \<Rightarrow> Inl TypeError | Some q \<Rightarrow> Inr q)"

text \<open>\<^verbatim>\<open>((currentQuestionIndex + 1) / questions.length) * 100\<close>, computed at every render.\<close>

definition progress :: "quiz_question list \<Rightarrow> quiz \<Rightarrow> double" where
  "progress questions s =
     double_times
       (double_divide
          (double_plus (DFinite (of_nat (currentQuestionIndex s))) (DFinite 1))
          (DFinite (of_nat (length questions))))
       (DFinite 100)"

definition handleAnswer :: "quiz_question list \<Rightarrow> int \<Rightarrow> quiz \<Rightarrow> quiz" where
  "handleAnswer questions pts s =
     (let newAnswers = assign (spread (answers s)) (currentQuestionIndex s) pts;
          s1 = s\<lparr>answers := newAnswers\<rparr>;
          s2 = localStorage_setItem ''focusFoundersQuizAnswers''
                 (stringify (JArray (map json_of_slot newAnswers))) s1
      in if int (currentQuestionIndex s) < int (length questions) - 1
         then s2\<lparr>currentQuestionIndex := currentQuestionIndex s + 1\<rparr>
         else
           (let totalScore = reduce_sum newAnswers;
                s3 = localStorage_setItem ''focusFoundersQuizScore'' (toString totalScore) s2
            in router_push ''/quiz/results'' s3))"

definition goBack :: "quiz \<Rightarrow> quiz" where
  "goBack s =
     (if currentQuestionIndex s > 0
      then s\<lparr>currentQuestionIndex := currentQuestionIndex s - 1\<rparr>
      else s\<lparr>step := GrowthStageStep\<rparr>)"

subsection \<open>The buttons of each screen\<close>

text \<open>
  One event per button the page renders. The business types catalog is not among the
  sources, so a business type button may carry any identifier; a growth stage button
  carries an identifier of \<open>growthStages\<close>; an option button is the \<open>k\<close>-th option of
  the question on screen and answers with its points. A click on a button that the
  current screen does not show does not happen: the state stays; a questions screen
  that failed to render shows no button. \<^verbatim>\<open>router.push\<close> starts the navigation and
  returns: no handler tests the route, and the buttons of the page stay live until the
  results have loaded, so a click may follow a hand-off.
\<close>

datatype event = ClickStart | ClickBusinessType string | ClickGrowthStage string
  | ClickBackToBusinessType | ClickOption nat | ClickPrevious

fun on_intro :: "event \<Rightarrow> quiz \<Rightarrow> quiz" where
  "on_intro ClickStart s = startQuiz s"
| "on_intro _ s = s"

fun on_business_type :: "event \<Rightarrow> quiz \<Rightarrow> quiz" where
  "on_business_type (ClickBusinessType b) s = selectBusinessType b s"
| "on_business_type _ s = s"

fun on_growth_stage :: "event \<Rightarrow> quiz \<Rightarrow> quiz" where
  "on_growth_stage (ClickGrowthStage g) s =
     (if g \<in> set (map stage_id growthStages) then selectGrowthStage g s else s)"
| "on_growth_stage ClickBackToBusinessType s = backToBusinessType s"
| "on_growth_stage _ s = s"

fun on_question :: "quiz_question list \<Rightarrow> quiz_question \<Rightarrow> event \<Rightarrow> quiz \<Rightarrow> quiz" where
  "on_question questions q (ClickOption k) s =
     (if k < length (options q) then handleAnswer questions (points (options q ! k)) s else s)"
| "on_question questions q ClickPrevious s = goBack s"
| "on_question questions q _ s = s"

definition dispatch :: "question_bank \<Rightarrow> event \<Rightarrow> quiz \<Rightarrow> quiz" where
  "dispatch getQuestionsForPath e s =
     (case step s of
        Intro \<Rightarrow> on_intro e s
      | BusinessTypeStep \<Rightarrow> on_business_type e s
      | GrowthStageStep \<Rightarrow> on_growth_stage e s
      | Questions \<Rightarrow>
          (let questions = questions_of getQuestionsForPath s
           in case render_question questions s of
                Inl err \<Rightarrow> s
              | Inr q \<Rightarrow> on_question questions q e s))"

definition run :: "question_bank \<Rightarrow> event list \<Rightarrow> quiz \<Rightarrow> quiz" where
  "run getQuestionsForPath es s = foldl (\<lambda>s e. dispatch getQuestionsForPath e s) s es"

text \<open>Answering with a list of point values, one call of the handler each.\<close>

definition answer_all :: "quiz_question list \<Rightarrow> int list \<Rightarrow> quiz \<Rightarrow> quiz" where
  "answer_all questions ps s = foldl (\<lambda>s p. handleAnswer questions p s) s ps"

text \<open>The point values behind the option buttons \<open>ks\<close>, clicked from question \<open>i\<close> on.\<close>

fun clicked_points :: "quiz_question list \<Rightarrow> nat \<Rightarrow> nat list \<Rightarrow> int list" where
  "clicked_points questions i [] = []"
| "clicked_points questions i (k # ks) =
     points (options (questions ! i) ! k) # clicked_points questions (i + 1) ks"

subsection \<open>Observations on the record of calls\<close>

fun is_score_write :: "call \<Rightarrow> bool" where
  "is_score_write (LocalStorage_setItem k v) = (k = ''focusFoundersQuizScore'')"
| "is_score_write _ = False"

fun is_handoff :: "call \<Rightarrow> bool" where
  "is_handoff (Router_push r) = True"
| "is_handoff _ = False"

definition score_writes :: "quiz \<Rightarrow> nat" where
  "score_writes s = length (filter is_score_write (calls s))"

definition handoffs :: "quiz \<Rightarrow> nat" where
  "handoffs s = length (filter is_handoff (calls s))"

text \<open>
  The two storage areas differ in their lifetime (Web Storage): \<^verbatim>\<open>sessionStorage\<close> ends
  with the browser session, \<^verbatim>\<open>localStorage\<close> stays. This is what the page finds when it
  is opened in the next session.
\<close>

definition next_session :: "quiz \<Rightarrow> quiz" where
  "next_session s = mount (localStorage s) Map.empty"

subsection \<open>Notions used in the statements\<close>

text \<open>What a string of decimal digits denotes.\<close>

definition decimal_value :: "string \<Rightarrow> nat" where
  "decimal_value cs = foldl (\<lambda>a c. 10 * a + (of_char c - 48)) 0 cs"

text \<open>A list of answers without gaps: every slot holds a point value.\<close>

definition recorded :: "slot list \<Rightarrow> bool" where
  "recorded xs = (\<exists>ps. xs = map Points ps)"

text \<open>The quiz is under way: still on the page, no score written, nothing handed off.\<close>

definition underway :: "quiz \<Rightarrow> bool" where
  "underway s \<longleftrightarrow> route s = ''/quiz'' \<and> score_writes s = 0 \<and> handoffs s = 0"

text \<open>
  The quiz has just been completed: the router has been sent to the results, the last
  three calls were the write of the answers, the write of the score and the push, and
  they are the only score write and the only push so far; the index is still that of
  the last question.
\<close>

definition completed :: "question_bank \<Rightarrow> quiz \<Rightarrow> bool" where
  "completed qf s \<longleftrightarrow>
     route s = ''/quiz/results'' \<and> score_writes s = 1 \<and> handoffs s = 1
     \<and> step s = Questions \<and> currentQuestionIndex s + 1 = length (questions_of qf s)
     \<and> (\<exists>cs. calls s = cs @
           [LocalStorage_setItem ''focusFoundersQuizAnswers''
              (stringify (JArray (map json_of_slot (answers s)))),
            LocalStorage_setItem ''focusFoundersQuizScore'' (toString (reduce_sum (answers s))),
            Router_push ''/quiz/results''])"

text \<open>
  A question bank for the worked examples: on every path three questions, each with
  the options worth 2, 4 and 1 points.
\<close>

definition example_question :: quiz_question where
  "example_question =
     \<lparr>question = ''How do you plan your week?'',
      options = [\<lparr>option_text = ''A'', points = 2\<rparr>, \<lparr>option_text = ''B'', points = 4\<rparr>,
                 \<lparr>option_text = ''C'', points = 1\<rparr>]\<rparr>"

definition example_bank :: question_bank where
  "example_bank b g = [example_question, example_question, example_question]"

definition example_chosen :: quiz where
  "example_chosen = selectBusinessType ''freelancer'' (startQuiz (mount Map.empty Map.empty))"

definition example_session :: "event list \<Rightarrow> quiz" where
  "example_session es =
     run example_bank
       ([ClickStart, ClickBusinessType ''freelancer'', ClickGrowthStage ''startup''] @ es)
       (mount Map.empty Map.empty)"

text \<open>A bank of five questions on every path, and the session at its third question.\<close>

definition five_bank :: question_bank where
  "five_bank b g = replicate 5 example_question"

definition third_of_five :: quiz where
  "third_of_five =
     run five_bank
       [ClickStart, ClickBusinessType ''freelancer'', ClickGrowthStage ''startup'',
        ClickOption 0, ClickOption 0]
       (mount Map.empty Map.empty)"

section \<open>Facts about the host language values\<close>

declare stringify.simps [simp del] toString.simps [simp del]

lemmas handler_defs = startQuiz_def selectBusinessType_def selectGrowthStage_def
  backToBusinessType_def handleAnswer_def goBack_def localStorage_removeItem_def
  localStorage_setItem_def router_push_def

lemma spread_length [simp]: "length (spread xs) = length xs"
  by (simp add: spread_def)

lemma element_spread [simp]: "element (spread xs) j = element xs j"
proof (cases "j < length xs")
  case True
  then show ?thesis by (cases "xs ! j") (simp_all add: element_def spread_def)
next
  case False
  then show ?thesis by (simp add: element_def)
qed

lemma element_assign_same: "element (assign xs i v) i = Some v"
  by (simp add: element_def assign_def nth_append)

lemma element_assign_other: "j \<noteq> i \<Longrightarrow> element (assign xs i v) j = element xs j"
  by (auto simp: element_def assign_def nth_append)

lemma spread_Points: "spread (map Points ps) = map Points ps"
  by (simp add: spread_def)

lemma assign_at_end: "assign xs (length xs) v = xs @ [Points v]"
  by (simp add: assign_def)

lemma foldl_plus_Points: "foldl plus_slot (Finite a) (map Points ps) = Finite (a + sum_list ps)"
  by (induction ps arbitrary: a) simp_all

lemma reduce_sum_Points: "reduce_sum (map Points ps) = Finite (sum_list ps)"
  by (simp add: reduce_sum_def foldl_plus_Points)

lemma json_of_slot_Points: "json_of_slot \<circ> Points = JNumber"
  by (rule ext) simp

subsection \<open>The decimal text of a number denotes the number\<close>

lemma digit_value: "d < 10 \<Longrightarrow> (of_char (digit d) :: nat) = 48 + d"
proof -
  assume "d < 10"
  then consider "d = 0" | "d = 1" | "d = 2" | "d = 3" | "d = 4" | "d = 5" | "d = 6"
    | "d = 7" | "d = 8" | "d = 9" by atomize_elim presburger
  then show ?thesis by cases (simp_all add: digit_def)
qed

lemma decimal_value_snoc:
  "decimal_value (cs @ [c]) = 10 * decimal_value cs + (of_char c - 48)"
  by (simp add: decimal_value_def)

lemma decimal_value_digits: "decimal_value (digits n) = n"
proof (induction n rule: digits.induct)
  case (1 n)
  show ?case
  proof (cases "n < 10")
    case True
    then have "digits n = [digit n]" by (subst digits.simps) simp
    then show ?thesis using True by (simp add: decimal_value_def digit_value)
  next
    case False
    then have "digits n = digits (n div 10) @ [digit (n mod 10)]" by (subst digits.simps) simp
    then have "decimal_value (digits n)
        = 10 * decimal_value (digits (n div 10)) + (of_char (digit (n mod 10)) - 48)"
      by (simp only: decimal_value_snoc)
    also have "\<dots> = 10 * (n div 10) + n mod 10"
      using 1[OF False] by (simp add: digit_value)
    finally show ?thesis by simp
  qed
qed

lemma digits_are_digits: "c \<in> set (digits n) \<Longrightarrow> c \<in> set ''0123456789''"
proof (induction n rule: digits.induct)
  case (1 n)
  have d: "digit k \<in> set ''0123456789''" if "k < 10" for k
  proof -
    from that consider "k = 0" | "k = 1" | "k = 2" | "k = 3" | "k = 4" | "k = 5" | "k = 6"
      | "k = 7" | "k = 8" | "k = 9" by atomize_elim presburger
    then show ?thesis by cases (simp_all add: digit_def)
  qed
  show ?case
  proof (cases "n < 10")
    case True
    have "digits n = [digit n]" using True by (subst digits.simps) simp
    with 1(2) have "c = digit n" by simp
    then show ?thesis using d[OF True] by simp
  next
    case False
    have "digits n = digits (n div 10) @ [digit (n mod 10)]"
      using False by (subst digits.simps) simp
    with 1(2) have "c \<in> set (digits (n div 10)) \<or> c = digit (n mod 10)"
      by auto
    then show ?thesis
    proof
      assume "c \<in> set (digits (n div 10))"
      then show ?thesis by (rule 1(1)[OF False])
    next
      assume "c = digit (n mod 10)"
      then show ?thesis using d[of "n mod 10"] by simp
    qed
  qed
qed

lemma toString_nonneg: "0 \<le> n \<Longrightarrow> toString (Finite n) = digits (nat n)"
  by (simp add: toString.simps)

subsection \<open>Rounding to a double\<close>

lemma floor_log2_bounds:
  "0 < n \<Longrightarrow> 2 ^ floor_log2 n \<le> n \<and> n < 2 ^ (floor_log2 n + 1)"
proof (induction n rule: floor_log2.induct)
  case (1 n)
  show ?case
  proof (cases "n < 2")
    case True
    with 1(2) have "n = 1" by simp
    then show ?thesis by (simp add: floor_log2.simps)
  next
    case False
    then have "0 < n div 2" by simp
    with 1(1)[OF False] have ih: "2 ^ floor_log2 (n div 2) \<le> n div 2"
      "n div 2 < 2 ^ (floor_log2 (n div 2) + 1)" by simp_all
    have e: "floor_log2 n = floor_log2 (n div 2) + 1"
      using False by (simp add: floor_log2.simps)
    have "2 * 2 ^ floor_log2 (n div 2) \<le> 2 * (n div 2)" using ih(1) by simp
    also have "\<dots> \<le> n" by simp
    finally have lo: "2 ^ floor_log2 n \<le> n" by (simp add: e)
    have "n < 2 * (n div 2) + 2" by presburger
    also have "\<dots> \<le> 2 * 2 ^ (floor_log2 (n div 2) + 1)" using ih(2) by simp
    finally have hi: "n < 2 ^ (floor_log2 n + 1)" by (simp add: e)
    from lo hi show ?thesis by simp
  qed
qed

lemma ceil_log2_bounds:
  assumes "2 \<le> m"
  shows "m \<le> 2 ^ ceil_log2 m" and "2 ^ (ceil_log2 m - 1) < m"
proof -
  from assms have p: "0 < m - 1" by simp
  from assms have c: "ceil_log2 m = floor_log2 (m - 1) + 1" by (simp add: ceil_log2_def)
  from floor_log2_bounds[OF p] have "m - 1 < 2 ^ (floor_log2 (m - 1) + 1)"
    and "2 ^ floor_log2 (m - 1) \<le> m - 1" by simp_all
  then show "m \<le> 2 ^ ceil_log2 m" and "2 ^ (ceil_log2 m - 1) < m"
    using assms by (simp_all add: c)
qed

lemma binary_exponent_bounds:
  assumes "0 < x"
  shows "2 powi binary_exponent x \<le> x" and "x < 2 powi (binary_exponent x + 1)"
proof -
  have "2 powi binary_exponent x \<le> x \<and> x < 2 powi (binary_exponent x + 1)"
  proof (cases "1 \<le> x")
    case True
    let ?n = "nat \<lfloor>x\<rfloor>"
    from True have n: "0 < ?n" by simp
    have e: "binary_exponent x = int (floor_log2 ?n)"
      using True by (simp add: binary_exponent_def)
    from floor_log2_bounds[OF n] have lo: "2 ^ floor_log2 ?n \<le> ?n"
      and hi: "?n < 2 ^ (floor_log2 ?n + 1)" by simp_all
    have nx: "(of_nat ?n :: rat) \<le> x" using True by simp
    have "0 \<le> \<lfloor>x\<rfloor>" using True by simp
    then have "(of_nat ?n :: rat) = of_int \<lfloor>x\<rfloor>" by simp
    moreover have "x < of_int \<lfloor>x\<rfloor> + 1" by linarith
    ultimately have xn: "x < of_nat ?n + 1" by simp
    from lo have "(2::rat) ^ floor_log2 ?n \<le> of_nat ?n"
      by (metis of_nat_le_iff of_nat_numeral of_nat_power)
    with nx have "(2::rat) ^ floor_log2 ?n \<le> x" by linarith
    then have 1: "2 powi binary_exponent x \<le> x" by (simp only: e power_int_of_nat)
    from hi have "?n + 1 \<le> 2 ^ (floor_log2 ?n + 1)" by simp
    then have "(of_nat (?n + 1) :: rat) \<le> of_nat (2 ^ (floor_log2 ?n + 1))"
      by (simp only: of_nat_le_iff)
    then have "(of_nat ?n :: rat) + 1 \<le> 2 ^ (floor_log2 ?n + 1)" by simp
    with xn have "x < 2 ^ (floor_log2 ?n + 1)" by linarith
    moreover have "binary_exponent x + 1 = int (floor_log2 ?n + 1)" by (simp add: e)
    ultimately have 2: "x < 2 powi (binary_exponent x + 1)"
      by (simp only: power_int_of_nat)
    from 1 2 show ?thesis ..
  next
    case False
    define m where "m = nat \<lceil>1 / x\<rceil>"
    from False assms have gt: "1 < 1 / x" by simp
    then have c2: "2 \<le> \<lceil>1 / x\<rceil>" by linarith
    then have m: "2 \<le> m" unfolding m_def by linarith
    have mc: "(of_nat m :: rat) = of_int \<lceil>1 / x\<rceil>"
      unfolding m_def using c2 by simp
    have e: "binary_exponent x = - int (ceil_log2 m)"
      using False by (simp add: binary_exponent_def m_def)
    from ceil_log2_bounds[OF m] have up: "m \<le> 2 ^ ceil_log2 m"
      and dn: "2 ^ (ceil_log2 m - 1) < m" by simp_all
    have k: "1 \<le> ceil_log2 m" using m by (simp add: ceil_log2_def)
    have "1 / x \<le> of_int \<lceil>1 / x\<rceil>" by simp
    also have "\<dots> = of_nat m" by (simp only: mc)
    also have "\<dots> \<le> of_nat (2 ^ ceil_log2 m)" using up by (simp only: of_nat_le_iff)
    finally have "1 / x \<le> 2 ^ ceil_log2 m" by simp
    then have "1 / 2 ^ ceil_log2 m \<le> x" using assms
      by (simp add: field_simps)
    then have 1: "2 powi binary_exponent x \<le> x"
      by (simp add: e power_int_minus field_simps)
    from dn have "2 ^ (ceil_log2 m - 1) + 1 \<le> m" by linarith
    then have "(of_nat (2 ^ (ceil_log2 m - 1) + 1) :: rat) \<le> of_nat m"
      by (simp only: of_nat_le_iff)
    then have "(2::rat) ^ (ceil_log2 m - 1) + 1 \<le> of_int \<lceil>1 / x\<rceil>"
      unfolding mc by simp
    moreover have "of_int \<lceil>1 / x\<rceil> < 1 / x + 1" by linarith
    ultimately have "(2::rat) ^ (ceil_log2 m - 1) < 1 / x" by linarith
    then have "x < 1 / 2 ^ (ceil_log2 m - 1)" using assms by (simp add: field_simps)
    moreover have "binary_exponent x + 1 = - int (ceil_log2 m - 1)" using k by (simp add: e)
    ultimately have 2: "x < 2 powi (binary_exponent x + 1)"
      by (simp add: power_int_minus field_simps)
    from 1 2 show ?thesis ..
  qed
  then show "2 powi binary_exponent x \<le> x" and "x < 2 powi (binary_exponent x + 1)"
    by simp_all
qed

lemma round_half_even_error: "\<bar>of_int (round_half_even y) - y\<bar> \<le> 1 / 2"
proof -
  have lo: "of_int \<lfloor>y\<rfloor> \<le> y" and hi: "y < of_int \<lfloor>y\<rfloor> + 1" by linarith+
  show ?thesis
  proof (cases "y - of_int \<lfloor>y\<rfloor> < 1 / 2")
    case True
    then have "round_half_even y = \<lfloor>y\<rfloor>" by (simp add: round_half_even_def)
    then show ?thesis using True lo by (simp add: abs_le_iff)
  next
    case below: False
    show ?thesis
    proof (cases "1 / 2 < y - of_int \<lfloor>y\<rfloor>")
      case True
      then have "round_half_even y = \<lfloor>y\<rfloor> + 1" by (simp add: round_half_even_def)
      then show ?thesis using True hi by (simp add: abs_le_iff)
    next
      case False
      with below have h: "y - of_int \<lfloor>y\<rfloor> = 1 / 2" by linarith
      then have "round_half_even y = \<lfloor>y\<rfloor> \<or> round_half_even y = \<lfloor>y\<rfloor> + 1"
        by (simp add: round_half_even_def Let_def)
      then show ?thesis using h by (auto simp: abs_le_iff)
    qed
  qed
qed

lemma round_half_even_of_int [simp]: "round_half_even (of_int m) = m"
  by (simp add: round_half_even_def)

lemma two_powi_mono: "m \<le> n \<Longrightarrow> (2::rat) powi m \<le> 2 powi n"
  by (rule power_int_increasing) simp_all

lemma two_powi_strict_mono: "m < n \<Longrightarrow> (2::rat) powi m < 2 powi n"
  by (rule power_int_strict_increasing) simp_all

lemma two_powi_less_cancel: "(2::rat) powi m < 2 powi n \<Longrightarrow> m < n"
  using two_powi_mono[of n m] by (cases "m < n") simp_all

text \<open>Between 2^-64 and 2^64 a rounding stays normal and finite.\<close>

lemma binary_exponent_range:
  assumes "1 / 2 ^ 64 \<le> x" "x \<le> 2 ^ 64"
  shows "- 64 \<le> binary_exponent x" and "binary_exponent x \<le> 64"
proof -
  from assms(1) have pos: "0 < x" by (rule less_le_trans[rotated]) simp
  have p64: "(2::rat) powi 64 = 2 ^ 64" and m64: "(2::rat) powi (- 64) = 1 / 2 ^ 64"
    by (simp_all add: power_int_minus field_simps)
  from binary_exponent_bounds(2)[OF pos] assms(1)
  have "(2::rat) powi (- 64) < 2 powi (binary_exponent x + 1)" unfolding m64 by linarith
  then have "- 64 < binary_exponent x + 1" by (rule two_powi_less_cancel)
  then show "- 64 \<le> binary_exponent x" by simp
  from binary_exponent_bounds(1)[OF pos] assms(2)
  have "(2::rat) powi binary_exponent x \<le> 2 powi 64" unfolding p64 by linarith
  then have "\<not> 2 powi 64 < (2::rat) powi binary_exponent x" by simp
  then have "\<not> 64 < binary_exponent x" using two_powi_strict_mono by blast
  then show "binary_exponent x \<le> 64" by simp
qed

lemma round_double_normal:
  assumes "1 / 2 ^ 64 \<le> x" "x \<le> 2 ^ 64"
  shows "round_double x =
     DFinite (of_int (round_half_even (x / 2 powi (binary_exponent x - 52)))
                * 2 powi (binary_exponent x - 52))"
    and "\<bar>of_int (round_half_even (x / 2 powi (binary_exponent x - 52)))
                * 2 powi (binary_exponent x - 52) - x\<bar> \<le> x / 2 ^ 53"
proof -
  from assms(1) have pos: "0 < x" by (rule less_le_trans[rotated]) simp
  define e where "e = binary_exponent x"
  define u :: rat where "u = 2 powi (e - 52)"
  define r where "r = of_int (round_half_even (x / u)) * u"
  have er: "- 64 \<le> e" "e \<le> 64"
    unfolding e_def using binary_exponent_range[OF assms] by simp_all
  have u_pos: "0 < u" by (simp add: u_def)
  have "\<bar>of_int (round_half_even (x / u)) - x / u\<bar> \<le> 1 / 2"
    by (rule round_half_even_error)
  then have "\<bar>of_int (round_half_even (x / u)) - x / u\<bar> * u \<le> 1 / 2 * u"
    using u_pos by (simp only: mult_le_cancel_right_pos)
  moreover have "\<bar>of_int (round_half_even (x / u)) - x / u\<bar> * u = \<bar>r - x\<bar>"
  proof -
    have "\<bar>of_int (round_half_even (x / u)) - x / u\<bar> * u
          = \<bar>(of_int (round_half_even (x / u)) - x / u) * u\<bar>"
      using u_pos by (simp add: abs_mult)
    also have "(of_int (round_half_even (x / u)) - x / u) * u = r - x"
      using u_pos by (simp add: r_def field_simps)
    finally show ?thesis .
  qed
  ultimately have half: "\<bar>r - x\<bar> \<le> u / 2" by simp
  have "u = 2 powi e / 2 ^ 52"
    unfolding u_def by (simp add: power_int_diff)
  moreover have "2 powi e \<le> x" unfolding e_def by (rule binary_exponent_bounds(1)[OF pos])
  ultimately have "u / 2 \<le> x / 2 ^ 53" by (simp add: field_simps)
  with half have err: "\<bar>r - x\<bar> \<le> x / 2 ^ 53" by linarith
  have "x / 2 ^ 53 \<le> x" using pos by (simp add: field_simps)
  with err have "r \<le> 2 * x" by linarith
  also have "\<dots> \<le> 2 ^ 65" using assms(2) by simp
  also have "\<dots> < (2::rat) ^ 1024" by (rule power_strict_increasing) simp_all
  finally have fin: "\<not> 2 powi 1024 \<le> r" by simp
  have mx: "max (e - 52) (- 1074) = e - 52" using er by simp
  have "round_double x = DFinite r"
    using pos fin unfolding round_double_def Let_def
    by (simp add: e_def[symmetric] mx u_def[symmetric] r_def[symmetric])
  then show "round_double x =
     DFinite (of_int (round_half_even (x / 2 powi (binary_exponent x - 52)))
                * 2 powi (binary_exponent x - 52))"
    by (simp add: r_def u_def e_def)
  from err show "\<bar>of_int (round_half_even (x / 2 powi (binary_exponent x - 52)))
                * 2 powi (binary_exponent x - 52) - x\<bar> \<le> x / 2 ^ 53"
    by (simp add: r_def u_def e_def)
qed

lemma round_double_error:
  assumes "1 / 2 ^ 64 \<le> x" "x \<le> 2 ^ 64"
  obtains r where "round_double x = DFinite r" and "\<bar>r - x\<bar> \<le> x / 2 ^ 53"
  using round_double_normal[OF assms] by blast

text \<open>A positive integer below 2^53 is a double.\<close>

lemma round_double_of_nat:
  assumes "0 < n" "n < 2 ^ 53"
  shows "round_double (of_nat n) = DFinite (of_nat n)"
proof -
  define x :: rat where "x = of_nat n"
  have x1: "1 \<le> x" using assms(1) by (simp add: x_def)
  have "(of_nat n :: rat) < of_nat (2 ^ 53)" using assms(2) by (simp only: of_nat_less_iff)
  then have xu: "x < 2 ^ 53" by (simp add: x_def)
  have lo: "1 / 2 ^ 64 \<le> x" using x1 by (rule order_trans[rotated]) simp
  have "(2::rat) ^ 53 \<le> 2 ^ 64" by (rule power_increasing) simp_all
  with xu have hi: "x \<le> 2 ^ 64" by linarith
  define e where "e = binary_exponent x"
  have pos: "0 < x" using x1 by simp
  have "2 powi e \<le> x" unfolding e_def by (rule binary_exponent_bounds(1)[OF pos])
  with xu have "(2::rat) powi e < 2 powi 53" by simp
  then have e_hi: "e < 53" by (rule two_powi_less_cancel)
  have "(2::rat) powi 0 \<le> x" using x1 by simp
  also have "x < 2 powi (e + 1)" unfolding e_def by (rule binary_exponent_bounds(2)[OF pos])
  finally have "0 < e + 1" by (rule two_powi_less_cancel)
  then have e_lo: "0 \<le> e" by simp
  define k where "k = nat (52 - e)"
  have ke: "e - 52 = - int k" using e_hi by (simp add: k_def)
  have u: "(2::rat) powi (e - 52) = 1 / 2 ^ k"
    unfolding ke by (simp add: power_int_minus field_simps)
  have q: "x / 2 powi (e - 52) = of_int (int n * 2 ^ k)"
    unfolding u by (simp add: x_def)
  have "round_double x = DFinite (of_int (round_half_even (x / 2 powi (e - 52))) * 2 powi (e - 52))"
    unfolding e_def by (rule round_double_normal(1)[OF lo hi])
  also have "of_int (round_half_even (x / 2 powi (e - 52))) * 2 powi (e - 52) = x"
    unfolding q round_half_even_of_int unfolding u by (simp add: x_def)
  finally show ?thesis by (simp add: x_def)
qed

text \<open>
  Why the scores are kept as integers: on non-negative integers whose sum stays below
  \<open>2 ^ 53\<close> the addition of doubles is the addition of integers.
\<close>

lemma double_plus_of_nat:
  assumes "a + b < 2 ^ 53"
  shows "double_plus (DFinite (of_nat a)) (DFinite (of_nat b)) = DFinite (of_nat (a + b))"
proof (cases "a + b = 0")
  case True
  then show ?thesis by (simp add: round_double_def)
next
  case False
  then have "0 < a + b" by simp
  from round_double_of_nat[OF this assms] show ?thesis by simp
qed

text \<open>So is a sum taken from left to right, as \<^verbatim>\<open>reduce\<close> takes it.\<close>

lemma double_sum_of_nat:
  assumes "a + sum_list ns < 2 ^ 53"
  shows "foldl (\<lambda>x n. double_plus x (DFinite (of_nat n))) (DFinite (of_nat a)) ns
         = DFinite (of_nat (a + sum_list ns))"
  using assms
proof (induction ns arbitrary: a)
  case Nil
  then show ?case by simp
next
  case (Cons n ns)
  from Cons.prems have 1: "a + n < 2 ^ 53" and 2: "(a + n) + sum_list ns < 2 ^ 53" by simp_all
  have "foldl (\<lambda>x n. double_plus x (DFinite (of_nat n))) (DFinite (of_nat a)) (n # ns)
        = foldl (\<lambda>x n. double_plus x (DFinite (of_nat n))) (DFinite (of_nat (a + n))) ns"
    by (simp only: foldl_Cons double_plus_of_nat[OF 1])
  also have "\<dots> = DFinite (of_nat ((a + n) + sum_list ns))" by (rule Cons.IH[OF 2])
  finally show ?case by (simp add: add.assoc)
qed

section \<open>The handlers, one by one\<close>

lemma handleAnswer_answers:
  "answers (handleAnswer questions p s) = assign (spread (answers s)) (currentQuestionIndex s) p"
  by (simp add: handler_defs Let_def)

lemma handleAnswer_dense_more:
  assumes "answers s = map Points pre" "currentQuestionIndex s = length pre"
    and "length pre + 1 < length questions"
  shows "handleAnswer questions p s =
     s\<lparr>answers := map Points (pre @ [p]),
       localStorage := (localStorage s)
          (''focusFoundersQuizAnswers'' \<mapsto> stringify (JArray (map JNumber (pre @ [p])))),
       calls := calls s @
          [LocalStorage_setItem ''focusFoundersQuizAnswers''
             (stringify (JArray (map JNumber (pre @ [p]))))],
       currentQuestionIndex := length pre + 1\<rparr>"
proof -
  have a: "assign (spread (answers s)) (currentQuestionIndex s) p = map Points (pre @ [p])"
    using assms(1,2) by (simp add: spread_Points assign_at_end[of "map Points pre", simplified])
  have c: "int (currentQuestionIndex s) < int (length questions) - 1"
    using assms(2,3) by linarith
  show ?thesis
    unfolding handleAnswer_def Let_def a
    using c assms(2) by (simp add: localStorage_setItem_def json_of_slot_Points del: map_append)
qed

lemma handleAnswer_dense_last:
  assumes "answers s = map Points pre" "currentQuestionIndex s = length pre"
    and "\<not> length pre + 1 < length questions"
  shows "handleAnswer questions p s =
     s\<lparr>answers := map Points (pre @ [p]),
       localStorage := (localStorage s)
          (''focusFoundersQuizAnswers'' \<mapsto> stringify (JArray (map JNumber (pre @ [p]))),
           ''focusFoundersQuizScore'' \<mapsto> toString (Finite (sum_list (pre @ [p])))),
       calls := calls s @
          [LocalStorage_setItem ''focusFoundersQuizAnswers''
             (stringify (JArray (map JNumber (pre @ [p])))),
           LocalStorage_setItem ''focusFoundersQuizScore''
             (toString (Finite (sum_list (pre @ [p])))),
           Router_push ''/quiz/results''],
       route := ''/quiz/results''\<rparr>"
proof -
  have a: "assign (spread (answers s)) (currentQuestionIndex s) p = map Points (pre @ [p])"
    using assms(1,2) by (simp add: spread_Points assign_at_end[of "map Points pre", simplified])
  have c: "\<not> int (currentQuestionIndex s) < int (length questions) - 1"
    using assms(2,3) by linarith
  show ?thesis
    unfolding handleAnswer_def Let_def a
    using c by (simp add: reduce_sum_Points localStorage_setItem_def router_push_def
        json_of_slot_Points del: map_append)
qed

lemma answer_all_Cons:
  "answer_all questions (p # ps) s = answer_all questions ps (handleAnswer questions p s)"
  by (simp add: answer_all_def)

text \<open>
  The loop invariant of answering in order: before question \<open>k\<close> the list holds the
  \<open>k\<close> point values given so far, with no gap.
\<close>

lemma answer_all_dense:
  assumes "answers s = map Points pre" "currentQuestionIndex s = length pre"
    and "length pre + length ps = length questions" "ps \<noteq> []"
  shows "answers (answer_all questions ps s) = map Points (pre @ ps)
    \<and> localStorage (answer_all questions ps s) ''focusFoundersQuizAnswers''
        = Some (stringify (JArray (map JNumber (pre @ ps))))
    \<and> localStorage (answer_all questions ps s) ''focusFoundersQuizScore''
        = Some (toString (Finite (sum_list (pre @ ps))))
    \<and> route (answer_all questions ps s) = ''/quiz/results''"
  using assms
proof (induction ps arbitrary: s pre)
  case Nil
  then show ?case by simp
next
  case (Cons p ps)
  show ?case
  proof (cases "ps = []")
    case True
    with Cons.prems have "\<not> length pre + 1 < length questions" by simp
    from handleAnswer_dense_last[OF Cons.prems(1,2) this, of p] True
    show ?thesis by (simp add: answer_all_def)
  next
    case False
    with Cons.prems have m: "length pre + 1 < length questions" by (cases ps) auto
    let ?s = "handleAnswer questions p s"
    have e: "?s = s\<lparr>answers := map Points (pre @ [p]),
       localStorage := (localStorage s)
          (''focusFoundersQuizAnswers'' \<mapsto> stringify (JArray (map JNumber (pre @ [p])))),
       calls := calls s @
          [LocalStorage_setItem ''focusFoundersQuizAnswers''
             (stringify (JArray (map JNumber (pre @ [p]))))],
       currentQuestionIndex := length pre + 1\<rparr>"
      by (rule handleAnswer_dense_more[OF Cons.prems(1,2) m])
    have 1: "answers ?s = map Points (pre @ [p])" by (simp add: e)
    have 2: "currentQuestionIndex ?s = length (pre @ [p])" by (simp add: e)
    have 3: "length (pre @ [p]) + length ps = length questions" using Cons.prems by simp
    from Cons.IH[OF 1 2 3 False] show ?thesis by (simp add: answer_all_Cons)
  qed
qed

section \<open>The page as a whole: what a click can do\<close>

lemma run_Nil [simp]: "run qf [] s = s"
  by (simp add: run_def)

lemma run_snoc [simp]: "run qf (es @ [e]) s = dispatch qf e (run qf es s)"
  by (simp add: run_def)

lemma run_Cons: "run qf (e # es) s = run qf es (dispatch qf e s)"
  by (simp add: run_def)

lemma render_question_Inr:
  "render_question questions s = Inr q \<longleftrightarrow>
     currentQuestionIndex s < length questions \<and> q = questions ! currentQuestionIndex s"
  by (auto simp: render_question_def currentQuestion_def)

lemma render_question_Inl:
  "render_question questions s = Inl err \<longleftrightarrow> \<not> currentQuestionIndex s < length questions"
  by (cases err) (auto simp: render_question_def currentQuestion_def)

text \<open>Every click either leaves the state alone or runs one handler on its own screen.\<close>

lemma dispatch_cases [case_names stay start business growth back_to_business answer previous]:
  assumes "dispatch qf e s = s \<Longrightarrow> P"
    and "\<lbrakk>step s = Intro; e = ClickStart;
            dispatch qf e s = startQuiz s\<rbrakk> \<Longrightarrow> P"
    and "\<And>b. \<lbrakk>step s = BusinessTypeStep; e = ClickBusinessType b;
            dispatch qf e s = selectBusinessType b s\<rbrakk> \<Longrightarrow> P"
    and "\<And>g. \<lbrakk>step s = GrowthStageStep; e = ClickGrowthStage g;
            g \<in> set (map stage_id growthStages);
            dispatch qf e s = selectGrowthStage g s\<rbrakk> \<Longrightarrow> P"
    and "\<lbrakk>step s = GrowthStageStep; e = ClickBackToBusinessType;
            dispatch qf e s = backToBusinessType s\<rbrakk> \<Longrightarrow> P"
    and "\<And>k. \<lbrakk>step s = Questions; e = ClickOption k;
            currentQuestionIndex s < length (questions_of qf s);
            k < length (options (questions_of qf s ! currentQuestionIndex s));
            dispatch qf e s = handleAnswer (questions_of qf s)
               (points (options (questions_of qf s ! currentQuestionIndex s) ! k)) s\<rbrakk> \<Longrightarrow> P"
    and "\<lbrakk>step s = Questions; e = ClickPrevious;
            currentQuestionIndex s < length (questions_of qf s);
            dispatch qf e s = goBack s\<rbrakk> \<Longrightarrow> P"
  shows P
proof (cases "step s")
  case Intro
  then have "dispatch qf e s = on_intro e s" by (simp add: dispatch_def)
  then show ?thesis using assms(1,2) Intro by (cases e) simp_all
next
  case BusinessTypeStep
  then have "dispatch qf e s = on_business_type e s" by (simp add: dispatch_def)
  then show ?thesis using assms(1,3) BusinessTypeStep by (cases e) simp_all
next
  case GrowthStageStep
  then have d: "dispatch qf e s = on_growth_stage e s" by (simp add: dispatch_def)
  show ?thesis
  proof (cases e)
    case (ClickGrowthStage g)
    show ?thesis
    proof (cases "g \<in> set (map stage_id growthStages)")
      case True
      with d ClickGrowthStage have "dispatch qf e s = selectGrowthStage g s" by simp
      then show ?thesis using assms(4) GrowthStageStep ClickGrowthStage True by blast
    next
      case False
      with d ClickGrowthStage have "dispatch qf e s = s" by simp
      then show ?thesis by (rule assms(1))
    qed
  next
    case ClickBackToBusinessType
    with d have "dispatch qf e s = backToBusinessType s" by simp
    then show ?thesis using assms(5) GrowthStageStep ClickBackToBusinessType by blast
  qed (use d assms(1) in simp_all)
next
  case Questions
  let ?qs = "questions_of qf s"
  show ?thesis
  proof (cases "currentQuestionIndex s < length ?qs")
    case False
    then have "render_question ?qs s = Inl TypeError"
      by (simp add: render_question_Inl)
    then have "dispatch qf e s = s" using Questions by (simp add: dispatch_def Let_def)
    then show ?thesis by (rule assms(1))
  next
    case inside: True
    then have "render_question ?qs s = Inr (?qs ! currentQuestionIndex s)"
      by (simp add: render_question_Inr)
    then have d: "dispatch qf e s = on_question ?qs (?qs ! currentQuestionIndex s) e s"
      using Questions by (simp add: dispatch_def Let_def)
    show ?thesis
    proof (cases e)
      case (ClickOption k)
      show ?thesis
      proof (cases "k < length (options (?qs ! currentQuestionIndex s))")
        case True
        with d ClickOption have "dispatch qf e s = handleAnswer ?qs
             (points (options (?qs ! currentQuestionIndex s) ! k)) s" by simp
        then show ?thesis using assms(6) Questions ClickOption inside True by blast
      next
        case False
        with d ClickOption have "dispatch qf e s = s" by simp
        then show ?thesis by (rule assms(1))
      qed
    next
      case ClickPrevious
      with d have "dispatch qf e s = goBack s" by simp
      then show ?thesis using assms(7) Questions ClickPrevious inside by blast
    qed (use d assms(1) in simp_all)
  qed
qed

lemma run_invariant:
  assumes "P s" and "\<And>s e. P s \<Longrightarrow> P (dispatch qf e s)"
  shows "P (run qf es s)"
  by (induction es rule: rev_induct) (simp_all add: assms)

lemma questions_of_handleAnswer [simp]:
  "questions_of qf (handleAnswer questions p s) = questions_of qf s"
  by (simp add: questions_of_def handler_defs Let_def)

lemma questions_of_goBack [simp]: "questions_of qf (goBack s) = questions_of qf s"
  by (simp add: questions_of_def handler_defs)

lemma step_handleAnswer [simp]: "step (handleAnswer questions p s) = step s"
  by (simp add: handler_defs Let_def)

lemma index_handleAnswer:
  "currentQuestionIndex (handleAnswer questions p s) =
     (if int (currentQuestionIndex s) < int (length questions) - 1
      then currentQuestionIndex s + 1 else currentQuestionIndex s)"
  by (simp add: handler_defs Let_def)

lemma route_handleAnswer:
  "route (handleAnswer questions p s) =
     (if int (currentQuestionIndex s) < int (length questions) - 1
      then route s else ''/quiz/results'')"
  by (simp add: handler_defs Let_def)

lemma calls_handleAnswer:
  "calls (handleAnswer questions p s) =
     (if int (currentQuestionIndex s) < int (length questions) - 1
      then calls s @ [LocalStorage_setItem ''focusFoundersQuizAnswers''
              (stringify (JArray (map json_of_slot (answers (handleAnswer questions p s)))))]
      else calls s @ [LocalStorage_setItem ''focusFoundersQuizAnswers''
              (stringify (JArray (map json_of_slot (answers (handleAnswer questions p s))))),
            LocalStorage_setItem ''focusFoundersQuizScore''
              (toString (reduce_sum (answers (handleAnswer questions p s)))),
            Router_push ''/quiz/results''])"
  by (simp add: handler_defs Let_def)

lemma length_assign: "length (assign xs i v) = max (length xs) (i + 1)"
  by (simp add: assign_def)

lemma length_answers_handleAnswer:
  "length (answers (handleAnswer questions p s)) = max (length (answers s)) (currentQuestionIndex s + 1)"
  by (simp add: handleAnswer_answers length_assign)

subsection \<open>The index stays inside a non-empty question list\<close>

lemma index_in_range_dispatch:
  assumes "step s = Questions \<longrightarrow>
             currentQuestionIndex s = 0 \<or> currentQuestionIndex s < length (questions_of qf s)"
  shows "step (dispatch qf e s) = Questions \<longrightarrow>
             currentQuestionIndex (dispatch qf e s) = 0
             \<or> currentQuestionIndex (dispatch qf e s) < length (questions_of qf (dispatch qf e s))"
proof (cases qf e s rule: dispatch_cases)
  case stay
  then show ?thesis using assms by simp
next
  case start
  then show ?thesis by (simp add: startQuiz_def)
next
  case (business b)
  then show ?thesis by (simp add: selectBusinessType_def)
next
  case (growth g)
  then show ?thesis by (simp add: handler_defs Let_def)
next
  case back_to_business
  then show ?thesis by (simp add: backToBusinessType_def)
next
  case (answer k)
  then show ?thesis by (auto simp: index_handleAnswer)
next
  case previous
  then show ?thesis by (auto simp: goBack_def questions_of_def)
qed

lemma index_in_range_run:
  "step (run qf es (mount ls ss)) = Questions \<longrightarrow>
     currentQuestionIndex (run qf es (mount ls ss)) = 0
     \<or> currentQuestionIndex (run qf es (mount ls ss))
         < length (questions_of qf (run qf es (mount ls ss)))"
  by (rule run_invariant[where P = "\<lambda>s. step s = Questions \<longrightarrow>
             currentQuestionIndex s = 0 \<or> currentQuestionIndex s < length (questions_of qf s)"])
     (simp add: mount_def, rule index_in_range_dispatch)

subsection \<open>The recorded list has no gap below the index\<close>

lemma recorded_assign:
  assumes "recorded xs" "i \<le> length xs"
  shows "recorded (assign (spread xs) i v)"
proof -
  from assms(1) obtain ps where xs: "xs = map Points ps" by (auto simp: recorded_def)
  show ?thesis
  proof (cases "i < length xs")
    case True
    then have "assign (spread xs) i v = map Points (ps[i := v])"
      by (simp add: xs spread_Points assign_def map_update)
    then show ?thesis by (auto simp: recorded_def)
  next
    case False
    with assms(2) have "i = length xs" by simp
    then have "assign (spread xs) i v = map Points (ps @ [v])"
      by (simp add: xs spread_Points assign_def)
    then show ?thesis unfolding recorded_def by blast
  qed
qed

lemma no_gap_dispatch:
  assumes "recorded (answers s) \<and> currentQuestionIndex s \<le> length (answers s)"
  shows "recorded (answers (dispatch qf e s))
         \<and> currentQuestionIndex (dispatch qf e s) \<le> length (answers (dispatch qf e s))"
proof (cases qf e s rule: dispatch_cases)
  case stay
  then show ?thesis using assms by simp
next
  case start
  then show ?thesis using assms by (simp add: startQuiz_def)
next
  case (business b)
  then show ?thesis using assms by (simp add: selectBusinessType_def)
next
  case (growth g)
  then show ?thesis by (simp add: handler_defs Let_def recorded_def)
next
  case back_to_business
  then show ?thesis using assms by (simp add: backToBusinessType_def)
next
  case (answer k)
  let ?s = "handleAnswer (questions_of qf s) (points (options (questions_of qf s ! currentQuestionIndex s) ! k)) s"
  have "recorded (answers ?s)"
    using assms by (simp add: handleAnswer_answers recorded_assign)
  moreover have "currentQuestionIndex ?s \<le> length (answers ?s)"
    by (auto simp: index_handleAnswer length_answers_handleAnswer)
  ultimately show ?thesis using answer by simp
next
  case previous
  then show ?thesis using assms by (auto simp: goBack_def)
qed

lemma no_gap_run:
  "recorded (answers (run qf es (mount ls ss)))
   \<and> currentQuestionIndex (run qf es (mount ls ss)) \<le> length (answers (run qf es (mount ls ss)))"
  by (rule run_invariant[where P = "\<lambda>s. recorded (answers s) \<and> currentQuestionIndex s \<le> length (answers s)"])
     (simp add: mount_def recorded_def, rule no_gap_dispatch)

lemma length_bound_dispatch:
  assumes "step s = Questions \<longrightarrow> questions_of qf s \<noteq> []
             \<longrightarrow> length (answers s) \<le> length (questions_of qf s)"
  shows "step (dispatch qf e s) = Questions \<longrightarrow> questions_of qf (dispatch qf e s) \<noteq> []
             \<longrightarrow> length (answers (dispatch qf e s)) \<le> length (questions_of qf (dispatch qf e s))"
proof (cases qf e s rule: dispatch_cases)
  case stay
  then show ?thesis using assms by simp
next
  case start
  then show ?thesis by (simp add: startQuiz_def)
next
  case (business b)
  then show ?thesis by (simp add: selectBusinessType_def)
next
  case (growth g)
  then show ?thesis by (simp add: handler_defs Let_def)
next
  case back_to_business
  then show ?thesis by (simp add: backToBusinessType_def)
next
  case (answer k)
  then show ?thesis using assms by (auto simp: length_answers_handleAnswer)
next
  case previous
  then show ?thesis using assms by (auto simp: goBack_def questions_of_def)
qed

lemma length_bound_run:
  "step (run qf es (mount ls ss)) = Questions \<longrightarrow> questions_of qf (run qf es (mount ls ss)) \<noteq> []
     \<longrightarrow> length (answers (run qf es (mount ls ss))) \<le> length (questions_of qf (run qf es (mount ls ss)))"
  by (rule run_invariant[where P = "\<lambda>s. step s = Questions \<longrightarrow> questions_of qf s \<noteq> []
             \<longrightarrow> length (answers s) \<le> length (questions_of qf s)"])
     (simp add: mount_def, rule length_bound_dispatch)

text \<open>The bound of the list by the index plus one survives every click but "previous".\<close>

lemma length_le_index_dispatch:
  assumes "length (answers s) \<le> currentQuestionIndex s + 1"
    and "e \<noteq> ClickPrevious \<or> currentQuestionIndex s = 0"
  shows "length (answers (dispatch qf e s)) \<le> currentQuestionIndex (dispatch qf e s) + 1"
proof (cases qf e s rule: dispatch_cases)
  case stay
  then show ?thesis using assms by simp
next
  case start
  then show ?thesis using assms by (simp add: startQuiz_def)
next
  case (business b)
  then show ?thesis using assms by (simp add: selectBusinessType_def)
next
  case (growth g)
  then show ?thesis by (simp add: handler_defs Let_def)
next
  case back_to_business
  then show ?thesis using assms by (simp add: backToBusinessType_def)
next
  case (answer k)
  then show ?thesis using assms(1) by (auto simp: index_handleAnswer length_answers_handleAnswer)
next
  case previous
  with assms(2) have "currentQuestionIndex s = 0" by simp
  then show ?thesis using previous assms(1) by (simp add: goBack_def)
qed

subsection \<open>A score write with every hand-off, at the last question\<close>

lemma score_writes_handleAnswer:
  "score_writes (handleAnswer questions p s) =
     (if int (currentQuestionIndex s) < int (length questions) - 1
      then score_writes s else score_writes s + 1)"
  by (simp add: score_writes_def calls_handleAnswer)

lemma handoffs_handleAnswer:
  "handoffs (handleAnswer questions p s) =
     (if int (currentQuestionIndex s) < int (length questions) - 1
      then handoffs s else handoffs s + 1)"
  by (simp add: handoffs_def calls_handleAnswer)

text \<open>Score writes and hand-offs come in pairs, and the route tells whether there was one.\<close>

lemma paired_dispatch:
  assumes "score_writes s = handoffs s \<and> (handoffs s = 0 \<longleftrightarrow> route s = ''/quiz'')"
  shows "score_writes (dispatch qf e s) = handoffs (dispatch qf e s)
         \<and> (handoffs (dispatch qf e s) = 0 \<longleftrightarrow> route (dispatch qf e s) = ''/quiz'')"
proof (cases qf e s rule: dispatch_cases)
  case stay
  then show ?thesis using assms by simp
next
  case start
  then show ?thesis using assms by (simp add: startQuiz_def score_writes_def handoffs_def)
next
  case (business b)
  then show ?thesis using assms
    by (simp add: selectBusinessType_def score_writes_def handoffs_def)
next
  case (growth g)
  then show ?thesis using assms
    by (simp add: handler_defs Let_def score_writes_def handoffs_def)
next
  case back_to_business
  then show ?thesis using assms
    by (simp add: backToBusinessType_def score_writes_def handoffs_def)
next
  case (answer k)
  then show ?thesis using assms
    by (simp add: score_writes_handleAnswer handoffs_handleAnswer route_handleAnswer)
next
  case previous
  then show ?thesis using assms by (simp add: goBack_def score_writes_def handoffs_def)
qed

lemma paired_run:
  "score_writes (run qf es (mount ls ss)) = handoffs (run qf es (mount ls ss))
   \<and> (handoffs (run qf es (mount ls ss)) = 0 \<longleftrightarrow> route (run qf es (mount ls ss)) = ''/quiz'')"
  by (rule run_invariant[where P = "\<lambda>s. score_writes s = handoffs s
         \<and> (handoffs s = 0 \<longleftrightarrow> route s = ''/quiz'')"])
     (simp add: mount_def score_writes_def handoffs_def, rule paired_dispatch)

text \<open>The first hand-off: only an answer at the last question ends the quiz under way.\<close>

lemma first_handoff_dispatch:
  assumes "underway s"
  shows "underway (dispatch qf e s)
         \<or> (completed qf (dispatch qf e s) \<and> (\<exists>k. e = ClickOption k)
             \<and> currentQuestionIndex s + 1 = length (questions_of qf s))"
proof (cases qf e s rule: dispatch_cases)
  case stay
  then show ?thesis using assms by simp
next
  case start
  then show ?thesis using assms
    by (simp add: underway_def startQuiz_def score_writes_def handoffs_def)
next
  case (business b)
  then show ?thesis using assms
    by (simp add: underway_def selectBusinessType_def score_writes_def handoffs_def)
next
  case (growth g)
  then show ?thesis using assms
    by (simp add: underway_def handler_defs Let_def score_writes_def handoffs_def)
next
  case back_to_business
  then show ?thesis using assms
    by (simp add: underway_def backToBusinessType_def score_writes_def handoffs_def)
next
  case (answer k)
  let ?qs = "questions_of qf s"
  let ?s = "handleAnswer ?qs (points (options (?qs ! currentQuestionIndex s) ! k)) s"
  show ?thesis
  proof (cases "int (currentQuestionIndex s) < int (length ?qs) - 1")
    case True
    then have "underway ?s" using assms
      by (simp add: underway_def score_writes_handleAnswer handoffs_handleAnswer
          route_handleAnswer)
    then show ?thesis using answer by simp
  next
    case False
    with answer(3) have last: "currentQuestionIndex s + 1 = length ?qs" by linarith
    then have "completed qf ?s" using assms False answer(1)
      by (simp add: underway_def completed_def score_writes_handleAnswer
          handoffs_handleAnswer calls_handleAnswer route_handleAnswer index_handleAnswer)
    then show ?thesis using answer last by simp
  qed
next
  case previous
  then show ?thesis using assms
    by (simp add: underway_def goBack_def score_writes_def handoffs_def)
qed

lemma sessionStorage_dispatch: "sessionStorage (dispatch qf e s) = sessionStorage s"
  by (cases qf e s rule: dispatch_cases) (simp_all add: handler_defs Let_def)

lemma sessionStorage_run: "sessionStorage (run qf es s) = sessionStorage s"
  by (rule run_invariant[where P = "\<lambda>t. sessionStorage t = sessionStorage s"])
     (simp_all add: sessionStorage_dispatch)

subsection \<open>Further facts for the claims\<close>

lemma length_le_index_run:
  assumes "ClickPrevious \<notin> set es" "length (answers s) \<le> currentQuestionIndex s + 1"
  shows "length (answers (run qf es s)) \<le> currentQuestionIndex (run qf es s) + 1"
  using assms(1)
proof (induction es rule: rev_induct)
  case Nil
  then show ?case using assms(2) by simp
next
  case (snoc e es)
  then have "length (answers (run qf es s)) \<le> currentQuestionIndex (run qf es s) + 1"
    and "e \<noteq> ClickPrevious" by auto
  then show ?case using length_le_index_dispatch[of "run qf es s" e qf] by simp
qed

lemma recorded_element: "recorded xs \<Longrightarrow> j < length xs \<Longrightarrow> element xs j \<noteq> None"
  by (auto simp: recorded_def element_def)

subsection \<open>Clicking the option buttons in order is answering with their points\<close>

lemma run_options_answer_all:
  assumes "step s = Questions"
    and "currentQuestionIndex s + length ks \<le> length (questions_of qf s)"
    and "\<forall>j < length ks. ks ! j < length (options (questions_of qf s ! (currentQuestionIndex s + j)))"
  shows "run qf (map ClickOption ks) s
         = answer_all (questions_of qf s) (clicked_points (questions_of qf s) (currentQuestionIndex s) ks) s"
  using assms
proof (induction ks arbitrary: s)
  case Nil
  then show ?case by (simp add: answer_all_def)
next
  case (Cons k ks)
  let ?qs = "questions_of qf s"
  let ?p = "points (options (?qs ! currentQuestionIndex s) ! k)"
  let ?s = "handleAnswer ?qs ?p s"
  from Cons.prems(2) have inside: "currentQuestionIndex s < length ?qs" by simp
  from Cons.prems(3) have k: "k < length (options (?qs ! currentQuestionIndex s))" by force
  have r: "render_question ?qs s = Inr (?qs ! currentQuestionIndex s)"
    using inside by (simp add: render_question_Inr)
  have d: "dispatch qf (ClickOption k) s = ?s"
    using Cons.prems(1) r k by (simp add: dispatch_def Let_def)
  show ?case
  proof (cases ks)
    case Nil
    then show ?thesis using d by (simp add: run_Cons answer_all_def)
  next
    case (Cons k' ks')
    with Cons.prems(2) have more: "int (currentQuestionIndex s) < int (length ?qs) - 1" by simp
    have 2: "step ?s = Questions" using Cons.prems(1) by simp
    have i: "currentQuestionIndex ?s = currentQuestionIndex s + 1"
      using more by (simp add: index_handleAnswer)
    have 3: "currentQuestionIndex ?s + length ks \<le> length (questions_of qf ?s)"
      using Cons.prems(2) by (simp add: i)
    have 4: "\<forall>j < length ks. ks ! j
        < length (options (questions_of qf ?s ! (currentQuestionIndex ?s + j)))"
    proof (intro allI impI)
      fix j assume "j < length ks"
      then have "Suc j < length (k # ks)" by simp
      with Cons.prems(3) have "(k # ks) ! Suc j
          < length (options (?qs ! (currentQuestionIndex s + Suc j)))" by blast
      then show "ks ! j < length (options (questions_of qf ?s ! (currentQuestionIndex ?s + j)))"
        by (simp add: i)
    qed
    from Cons.IH[OF 2 3 4] show ?thesis
      using d by (simp add: run_Cons answer_all_Cons i)
  qed
qed

lemma clicking_all_persists_sum:
  assumes "step s = GrowthStageStep"
    and "g \<in> set (map stage_id growthStages)"
    and "questions = questions_of qf (selectGrowthStage g s)"
    and "questions \<noteq> []" "length ks = length questions"
    and "\<forall>j < length ks. ks ! j < length (options (questions ! j))"
  shows "localStorage (run qf (ClickGrowthStage g # map ClickOption ks) s)
            ''focusFoundersQuizScore''
           = Some (toString (Finite (sum_list (clicked_points questions 0 ks))))
    \<and> localStorage (run qf (ClickGrowthStage g # map ClickOption ks) s)
            ''focusFoundersQuizAnswers''
           = Some (stringify (JArray (map JNumber (clicked_points questions 0 ks))))
    \<and> route (run qf (ClickGrowthStage g # map ClickOption ks) s) = ''/quiz/results''"
proof -
  let ?s = "selectGrowthStage g s"
  have d: "dispatch qf (ClickGrowthStage g) s = ?s"
    using assms(1,2) by (simp add: dispatch_def)
  have 2: "step ?s = Questions" by (simp add: handler_defs Let_def)
  have i: "currentQuestionIndex ?s = 0" by (simp add: handler_defs Let_def)
  have a: "answers ?s = map Points []" by (simp add: handler_defs Let_def)
  have 3: "currentQuestionIndex ?s + length ks \<le> length (questions_of qf ?s)"
    using assms(3,5) by (simp add: i)
  have 4: "\<forall>j < length ks. ks ! j
      < length (options (questions_of qf ?s ! (currentQuestionIndex ?s + j)))"
    using assms(3,6) by (simp add: i)
  have r: "run qf (ClickGrowthStage g # map ClickOption ks) s
      = answer_all questions (clicked_points questions 0 ks) ?s"
    using run_options_answer_all[OF 2 3 4] d assms(3) by (simp add: run_Cons i)
  have l: "length (clicked_points questions n ks) = length ks" for n
    by (induction ks arbitrary: n) simp_all
  have 5: "currentQuestionIndex ?s = length ([] :: int list)" by (simp add: i)
  have 6: "length ([] :: int list) + length (clicked_points questions 0 ks) = length questions"
    using assms(5) by (simp add: l)
  have 7: "clicked_points questions 0 ks \<noteq> []"
    using assms(4,5) l[of 0] by (metis length_0_conv)
  from answer_all_dense[OF a 5 6 7] show ?thesis unfolding r by simp
qed

subsection \<open>The progress value, step by step\<close>

lemma progress_steps:
  assumes "currentQuestionIndex s < length questions" and "length questions < 2 ^ 32"
  obtains q p where
    "round_double (of_nat (currentQuestionIndex s + 1) / of_nat (length questions)) = DFinite q"
    "\<bar>q - of_nat (currentQuestionIndex s + 1) / of_nat (length questions)\<bar>
       \<le> of_nat (currentQuestionIndex s + 1) / of_nat (length questions) / 2 ^ 53"
    "round_double (q * 100) = DFinite p"
    "\<bar>p - q * 100\<bar> \<le> q * 100 / 2 ^ 53"
    "progress questions s = DFinite p"
proof -
  define a where "a = currentQuestionIndex s + 1"
  define n where "n = length questions"
  define x :: rat where "x = of_nat a / of_nat n"
  have a_pos: "0 < a" by (simp add: a_def)
  have a_le: "a \<le> n" using assms(1) by (simp add: a_def n_def)
  have n_pos: "0 < n" using assms(1) unfolding n_def by linarith
  have n_lt: "n < 2 ^ 32" using assms(2) by (simp add: n_def)
  have "(2::nat) ^ 32 < 2 ^ 53" by simp
  with a_le n_lt have a53: "a < 2 ^ 53" by linarith
  have plus: "double_plus (DFinite (of_nat (currentQuestionIndex s))) (DFinite 1) = DFinite (of_nat a)"
    using round_double_of_nat[OF a_pos a53] by (simp add: a_def add.commute)
  have x_le: "x \<le> 1" using a_le n_pos by (simp add: x_def)
  have "(of_nat n :: rat) < of_nat (2 ^ 32)" using n_lt by (simp only: of_nat_less_iff)
  then have n32: "(of_nat n :: rat) < 2 ^ 32" by simp
  have "1 / of_nat n \<le> x" using a_pos n_pos by (simp add: x_def field_simps)
  moreover have "1 / 2 ^ 32 < 1 / (of_nat n :: rat)" using n32 n_pos by (simp add: field_simps)
  ultimately have x_lo: "1 / 2 ^ 32 < x" by linarith
  have x_pos: "0 < x" using x_lo by (rule less_trans[rotated]) simp
  have "(1::rat) / 2 ^ 64 \<le> 1 / 2 ^ 32" by (simp add: field_simps)
  with x_lo have lo: "1 / 2 ^ 64 \<le> x" by linarith
  have hi: "x \<le> 2 ^ 64" using x_le by (rule order_trans) simp
  from round_double_error[OF lo hi] obtain q
    where q: "round_double x = DFinite q" and qe: "\<bar>q - x\<bar> \<le> x / 2 ^ 53" by blast
  have "x / 2 ^ 53 \<le> x / 2" using x_pos by (simp add: field_simps)
  with qe have q_lo: "x / 2 \<le> q" and q_hi: "q \<le> 2 * x" using x_pos by linarith+
  have "(1::rat) / 2 ^ 64 \<le> 1 / 2 ^ 32 / 2 * 100" by (simp add: field_simps)
  also have "\<dots> \<le> x / 2 * 100" using x_lo by simp
  also have "\<dots> \<le> q * 100" using q_lo by simp
  finally have lo2: "1 / 2 ^ 64 \<le> q * 100" .
  have "q * 100 \<le> 2 * 1 * 100" using q_hi x_le by simp
  also have "\<dots> \<le> (2::rat) ^ 64" by simp
  finally have hi2: "q * 100 \<le> 2 ^ 64" .
  from round_double_error[OF lo2 hi2] obtain p
    where p: "round_double (q * 100) = DFinite p" and pe: "\<bar>p - q * 100\<bar> \<le> q * 100 / 2 ^ 53"
    by blast
  have n0: "(of_nat n :: rat) \<noteq> 0" using n_pos by simp
  have "progress questions s = DFinite p"
    unfolding progress_def plus using n0 q p
    by (simp add: n_def[symmetric] x_def[symmetric])
  with q qe p pe show thesis
    using that unfolding x_def a_def n_def by blast
qed

lemma round_three_fifths: "round_double (3 / 5) = DFinite (5404319552844595 / 9007199254740992)"
proof -
  have e: "binary_exponent (3 / 5) = - 1"
    by code_simp
  have u: "(2::rat) powi (- 1 - 52) = 1 / 2 ^ 53" by (simp add: power_int_minus field_simps)
  have m: "round_half_even (3 / 5 / (1 / 2 ^ 53)) = 5404319552844595"
    by code_simp
  have "round_double (3 / 5) =
     DFinite (of_int (round_half_even (3 / 5 / 2 powi (binary_exponent (3 / 5) - 52)))
                * 2 powi (binary_exponent (3 / 5) - 52))"
    by (rule round_double_normal(1)) simp_all
  then show ?thesis unfolding e u m by simp
qed

lemma round_sixty: "round_double (5404319552844595 / 9007199254740992 * 100) = DFinite 60"
proof -
  have e: "binary_exponent (5404319552844595 / 9007199254740992 * 100) = 5"
    by code_simp
  have u: "(2::rat) powi (5 - 52) = 1 / 2 ^ 47" by (simp add: power_int_minus field_simps)
  have m: "round_half_even (5404319552844595 / 9007199254740992 * 100 / (1 / 2 ^ 47)) = 8444249301319680"
    by code_simp
  have "round_double (5404319552844595 / 9007199254740992 * 100) =
     DFinite (of_int (round_half_even (5404319552844595 / 9007199254740992 * 100 / 2 powi (binary_exponent (5404319552844595 / 9007199254740992 * 100) - 52)))
                * 2 powi (binary_exponent (5404319552844595 / 9007199254740992 * 100) - 52))"
    by (rule round_double_normal(1)) simp_all
  then show ?thesis unfolding e u m by simp
qed

lemma third_of_five_index: "currentQuestionIndex third_of_five = 2"
  by code_simp

lemma third_of_five_questions: "length (questions_of five_bank third_of_five) = 5"
  by (simp add: questions_of_def five_bank_def)

lemma third_of_five_progress:
  "progress (questions_of five_bank third_of_five) third_of_five = DFinite 60"
proof -
  have "round_double (of_nat 3) = DFinite (of_nat 3)"
    by (rule round_double_of_nat) simp_all
  then have 3: "round_double 3 = DFinite 3" by simp
  have d: "double_divide (double_plus (DFinite (of_nat 2)) (DFinite 1)) (DFinite (of_nat 5))
       = DFinite (5404319552844595 / 9007199254740992)"
    by (simp add: 3 round_three_fifths)
  show ?thesis
    unfolding progress_def third_of_five_index third_of_five_questions d
    by (simp only: double_times.simps round_sixty)
qed

section \<open>Worked examples: how they are evaluated\<close>

lemmas example_defs = example_session_def example_chosen_def example_bank_def
  example_question_def run_def dispatch_def mount_def questions_of_def render_question_def
  currentQuestion_def growthStages_def answer_all_def Let_def

lemmas value_defs = assign_def spread_def reduce_sum_def element_def toString.simps
  stringify.simps digits.simps digit_def quote_def escape_def

section \<open>The claims\<close>

text \<open>
  Claim C1. Take a question list of length \<open>N > 0\<close> and point values
  \<open>p0, ..., p(N-1)\<close>, non-negative integers whose sum is a safe integer. After the
  growth stage is chosen (from any state \<open>s\<close>), answering the \<open>N\<close> questions in order
  with these values leaves under the score key the decimal text of the sum
  \<open>p0 + ... + p(N-1)\<close> (a text whose decimal value is the sum) and under the answers
  key the JSON text of the list \<open>[p0, ..., p(N-1)]\<close>; the list in memory is the same,
  and the router has gone to the results.
\<close>

theorem answering_all_persists_sum:
  assumes "questions \<noteq> []" and "length ps = length questions"
    and "list_all (\<lambda>p. 0 \<le> p) ps" and "isSafeInteger (sum_list ps)"
  shows "localStorage (answer_all questions ps (selectGrowthStage g s)) ''focusFoundersQuizScore''
           = Some (toString (Finite (sum_list ps)))
    \<and> localStorage (answer_all questions ps (selectGrowthStage g s)) ''focusFoundersQuizAnswers''
           = Some (stringify (JArray (map JNumber ps)))
    \<and> answers (answer_all questions ps (selectGrowthStage g s)) = map Points ps
    \<and> route (answer_all questions ps (selectGrowthStage g s)) = ''/quiz/results''
    \<and> int (decimal_value (toString (Finite (sum_list ps)))) = sum_list ps"
proof -
  let ?s = "selectGrowthStage g s"
  have 1: "answers ?s = map Points []" by (simp add: handler_defs Let_def)
  have 2: "currentQuestionIndex ?s = length ([] :: int list)" by (simp add: handler_defs Let_def)
  have 3: "length ([] :: int list) + length ps = length questions" using assms(2) by simp
  have 4: "ps \<noteq> []" using assms(1,2) by auto
  from assms(3) have "0 \<le> sum_list ps"
    by (intro sum_list_nonneg) (simp add: list_all_iff)
  then have 5: "int (decimal_value (toString (Finite (sum_list ps)))) = sum_list ps"
    by (simp add: toString_nonneg decimal_value_digits)
  from answer_all_dense[OF 1 2 3 4] 5 show ?thesis by simp
qed

theorem answering_all_persists_sum_witness:
  "example_bank (Some ''freelancer'') (Some ''startup'') \<noteq> []
   \<and> length [2, 4, 1 :: int] = length (example_bank (Some ''freelancer'') (Some ''startup''))
   \<and> list_all (\<lambda>p. 0 \<le> p) [2, 4, 1 :: int] \<and> isSafeInteger (sum_list [2, 4, 1])
   \<and> localStorage (answer_all (example_bank (Some ''freelancer'') (Some ''startup'')) [2, 4, 1]
        (selectGrowthStage ''startup'' example_chosen)) ''focusFoundersQuizScore'' = Some ''7''
   \<and> localStorage (answer_all (example_bank (Some ''freelancer'') (Some ''startup'')) [2, 4, 1]
        (selectGrowthStage ''startup'' example_chosen)) ''focusFoundersQuizAnswers''
        = Some ''[2,4,1]''
   \<and> answers (answer_all (example_bank (Some ''freelancer'') (Some ''startup'')) [2, 4, 1]
        (selectGrowthStage ''startup'' example_chosen)) = [Points 2, Points 4, Points 1]"
proof -
  have h1: "example_bank (Some ''freelancer'') (Some ''startup'') \<noteq> []"
    by (simp add: example_bank_def)
  have h2: "length [2, 4, 1 :: int] = length (example_bank (Some ''freelancer'') (Some ''startup''))"
    by (simp add: example_bank_def)
  have h3: "list_all (\<lambda>p. 0 \<le> p) [2, 4, 1 :: int]" by simp
  have h4: "isSafeInteger (sum_list [2, 4, 1])"
    by (simp add: isSafeInteger_def MAX_SAFE_INTEGER_def)
  from answering_all_persists_sum[OF h1 h2 h3 h4, of "''startup''" example_chosen] h1 h2 h3 h4
  show ?thesis by (simp add: value_defs)
qed


text \<open>
  Claim C3. In every state, answering with point value \<open>p\<close> at the current index
  \<open>i\<close> gives a list that reads \<open>p\<close> at \<open>i\<close> and reads at every other index \<open>j\<close>
  what it read before (a recorded value stays the same value, an unrecorded slot stays
  unrecorded); the list so updated is the one stored under the answers key.
\<close>

theorem answer_writes_current_slot_only:
  "element (answers (handleAnswer questions p s)) (currentQuestionIndex s) = Some p
   \<and> (\<forall>j. j \<noteq> currentQuestionIndex s \<longrightarrow>
          element (answers (handleAnswer questions p s)) j = element (answers s) j)
   \<and> localStorage (handleAnswer questions p s) ''focusFoundersQuizAnswers''
       = Some (stringify (JArray (map json_of_slot (answers (handleAnswer questions p s)))))"
proof (intro conjI allI impI)
  show "element (answers (handleAnswer questions p s)) (currentQuestionIndex s) = Some p"
    by (simp add: handleAnswer_answers element_assign_same)
next
  fix j assume "j \<noteq> currentQuestionIndex s"
  then show "element (answers (handleAnswer questions p s)) j = element (answers s) j"
    by (simp add: handleAnswer_answers element_assign_other)
next
  show "localStorage (handleAnswer questions p s) ''focusFoundersQuizAnswers''
       = Some (stringify (JArray (map json_of_slot (answers (handleAnswer questions p s)))))"
    by (simp add: handler_defs Let_def)
qed

text \<open>Back from the third question to the second, which is then answered again.\<close>

theorem answer_writes_current_slot_only_witness:
  "step (example_session [ClickOption 0, ClickOption 1, ClickPrevious]) = Questions
   \<and> currentQuestionIndex (example_session [ClickOption 0, ClickOption 1, ClickPrevious]) = 1
   \<and> answers (example_session [ClickOption 0, ClickOption 1, ClickPrevious]) = [Points 2, Points 4]
   \<and> element (answers (handleAnswer (example_bank (Some ''freelancer'') (Some ''startup'')) 1
        (example_session [ClickOption 0, ClickOption 1, ClickPrevious]))) 1 = Some 1
   \<and> element (answers (handleAnswer (example_bank (Some ''freelancer'') (Some ''startup'')) 1
        (example_session [ClickOption 0, ClickOption 1, ClickPrevious]))) 0 = Some 2"
proof -
  let ?s = "example_session [ClickOption 0, ClickOption 1, ClickPrevious]"
  have i: "currentQuestionIndex ?s = 1" by code_simp
  have a: "answers ?s = [Points 2, Points 4]" by code_simp
  have q: "step ?s = Questions" by code_simp
  have n: "(0::nat) \<noteq> currentQuestionIndex ?s" unfolding i by simp
  let ?t = "handleAnswer (example_bank (Some ''freelancer'') (Some ''startup'')) 1 ?s"
  from answer_writes_current_slot_only[of "example_bank (Some ''freelancer'') (Some ''startup'')" 1 ?s]
  have A: "element (answers ?t) (currentQuestionIndex ?s) = Some 1"
    and B: "element (answers ?t) 0 = element (answers ?s) 0"
    using n by blast+
  have A': "element (answers ?t) 1 = Some 1" using A unfolding i .
  have "element (answers ?s) 0 = Some 2" unfolding a by (simp add: element_def)
  with B have B': "element (answers ?t) 0 = Some 2" by simp
  from q i a A' B' show ?thesis by blast
qed

text \<open>
  Claim C4. \<open>goBack\<close> with an index above 0 lowers the index by exactly one and
  changes nothing else: the screen, the answers, both selections, the storage and the
  calls are as before. With the index at 0 it changes the screen to the growth stages
  and nothing else: the business type, the growth stage and the answers stay.
\<close>

theorem goBack_effect:
  "(0 < currentQuestionIndex s \<longrightarrow>
      goBack s = s\<lparr>currentQuestionIndex := currentQuestionIndex s - 1\<rparr>
      \<and> currentQuestionIndex (goBack s) = currentQuestionIndex s - 1
      \<and> step (goBack s) = step s
      \<and> answers (goBack s) = answers s
      \<and> selectedBusinessType (goBack s) = selectedBusinessType s
      \<and> selectedGrowthStage (goBack s) = selectedGrowthStage s
      \<and> localStorage (goBack s) = localStorage s
      \<and> calls (goBack s) = calls s)
   \<and> (currentQuestionIndex s = 0 \<longrightarrow>
      goBack s = s\<lparr>step := GrowthStageStep\<rparr>
      \<and> step (goBack s) = GrowthStageStep
      \<and> currentQuestionIndex (goBack s) = 0
      \<and> answers (goBack s) = answers s
      \<and> selectedBusinessType (goBack s) = selectedBusinessType s
      \<and> selectedGrowthStage (goBack s) = selectedGrowthStage s
      \<and> localStorage (goBack s) = localStorage s
      \<and> calls (goBack s) = calls s)"
  by (simp add: goBack_def)

theorem goBack_effect_witness:
  "currentQuestionIndex (example_session [ClickOption 0, ClickOption 1]) = 2
   \<and> currentQuestionIndex (goBack (example_session [ClickOption 0, ClickOption 1])) = 1
   \<and> answers (goBack (example_session [ClickOption 0, ClickOption 1])) = [Points 2, Points 4]
   \<and> selectedBusinessType (goBack (example_session [ClickOption 0, ClickOption 1])) = Some ''freelancer''
   \<and> currentQuestionIndex (example_session [ClickOption 0, ClickPrevious]) = 0
   \<and> step (goBack (example_session [ClickOption 0, ClickPrevious])) = GrowthStageStep
   \<and> answers (goBack (example_session [ClickOption 0, ClickPrevious])) = [Points 2]
   \<and> selectedBusinessType (goBack (example_session [ClickOption 0, ClickPrevious])) = Some ''freelancer''
   \<and> selectedGrowthStage (goBack (example_session [ClickOption 0, ClickPrevious])) = Some ''startup''"
proof -
  let ?a = "example_session [ClickOption 0, ClickOption 1]"
  let ?b = "example_session [ClickOption 0, ClickPrevious]"
  have a: "currentQuestionIndex ?a = 2" "answers ?a = [Points 2, Points 4]"
    "selectedBusinessType ?a = Some ''freelancer''"
    by (simp_all add: example_defs handler_defs value_defs)
  have b: "currentQuestionIndex ?b = 0" "answers ?b = [Points 2]"
    "selectedBusinessType ?b = Some ''freelancer''" "selectedGrowthStage ?b = Some ''startup''"
    by (simp_all add: example_defs handler_defs value_defs)
  from goBack_effect[of ?a] goBack_effect[of ?b] a b show ?thesis by simp
qed

text \<open>
  Claim C10. From every state, \<open>selectBusinessType\<close> records the business type and
  shows the growth stages; the recorded growth stage, the answers, the index, the
  storage (every key of it), the route and the calls are unchanged. Earlier answers
  are cleared only by the growth stage selection that follows (claim C2).
\<close>

theorem selectBusinessType_frame:
  "selectedBusinessType (selectBusinessType b s) = Some b
   \<and> step (selectBusinessType b s) = GrowthStageStep
   \<and> selectedGrowthStage (selectBusinessType b s) = selectedGrowthStage s
   \<and> answers (selectBusinessType b s) = answers s
   \<and> currentQuestionIndex (selectBusinessType b s) = currentQuestionIndex s
   \<and> localStorage (selectBusinessType b s) = localStorage s
   \<and> sessionStorage (selectBusinessType b s) = sessionStorage s
   \<and> route (selectBusinessType b s) = route s
   \<and> calls (selectBusinessType b s) = calls s"
  by (simp add: selectBusinessType_def)

text \<open>
  Claim C5, as stated, fails: the page keeps its buttons after the hand-off, and a
  second click on an option of the last question writes the score and hands off again.
\<close>

theorem second_click_hands_off_again:
  "handoffs (example_session [ClickOption 0, ClickOption 1, ClickOption 2, ClickOption 2]) = 2
   \<and> score_writes
        (example_session [ClickOption 0, ClickOption 1, ClickOption 2, ClickOption 2]) = 2"
proof -
  let ?s = "example_session [ClickOption 0, ClickOption 1, ClickOption 2, ClickOption 2]"
  have 1: "handoffs ?s = 2" by code_simp
  have 2: "score_writes ?s = 2" by code_simp
  from 1 2 show ?thesis by blast
qed

text \<open>
  Claim C5, amended. The score is written (\<^verbatim>\<open>setItem\<close> under the score key; the removal
  by the growth stage selection is no write) only by an answer at the last question,
  and every such answer writes the answers, then the score, then hands off to the
  results, once each; an answer before the last question writes only the answers and
  hands nothing off. So in every run of the page from its mount the score writes and
  the hand-offs are equal in number, and there is none while the route is still that
  of the quiz. The first hand-off comes from a click on an option at the last question
  index, and it leaves exactly one score write and one hand-off, as the last calls in
  the order answers, score, push.
\<close>

theorem score_written_with_each_handoff:
  assumes "s = run qf es (mount ls ss)"
  shows "score_writes s = handoffs s
    \<and> (handoffs s = 0 \<longleftrightarrow> route s = ''/quiz'')
    \<and> (\<forall>e. route s = ''/quiz'' \<longrightarrow>
          handoffs (dispatch qf e s) \<le> 1
          \<and> (handoffs (dispatch qf e s) = 1 \<longrightarrow>
                (\<exists>k. e = ClickOption k)
                \<and> step s = Questions
                \<and> currentQuestionIndex s + 1 = length (questions_of qf s)
                \<and> score_writes (dispatch qf e s) = 1
                \<and> route (dispatch qf e s) = ''/quiz/results''
                \<and> (\<exists>cs. calls (dispatch qf e s) = cs @
                     [LocalStorage_setItem ''focusFoundersQuizAnswers''
                        (stringify (JArray (map json_of_slot (answers (dispatch qf e s))))),
                      LocalStorage_setItem ''focusFoundersQuizScore''
                        (toString (reduce_sum (answers (dispatch qf e s)))),
                      Router_push ''/quiz/results''])))
    \<and> (\<forall>questions p t. int (currentQuestionIndex t) < int (length questions) - 1 \<longrightarrow>
          calls (handleAnswer questions p t) = calls t @
            [LocalStorage_setItem ''focusFoundersQuizAnswers''
               (stringify (JArray (map json_of_slot (answers (handleAnswer questions p t)))))]
          \<and> score_writes (handleAnswer questions p t) = score_writes t
          \<and> handoffs (handleAnswer questions p t) = handoffs t
          \<and> route (handleAnswer questions p t) = route t)
    \<and> (\<forall>questions p t. \<not> int (currentQuestionIndex t) < int (length questions) - 1 \<longrightarrow>
          calls (handleAnswer questions p t) = calls t @
            [LocalStorage_setItem ''focusFoundersQuizAnswers''
               (stringify (JArray (map json_of_slot (answers (handleAnswer questions p t))))),
             LocalStorage_setItem ''focusFoundersQuizScore''
               (toString (reduce_sum (answers (handleAnswer questions p t)))),
             Router_push ''/quiz/results'']
          \<and> score_writes (handleAnswer questions p t) = score_writes t + 1
          \<and> handoffs (handleAnswer questions p t) = handoffs t + 1
          \<and> route (handleAnswer questions p t) = ''/quiz/results'')"
proof -
  have pair: "score_writes s = handoffs s \<and> (handoffs s = 0 \<longleftrightarrow> route s = ''/quiz'')"
    unfolding assms by (rule paired_run)
  have first: "\<forall>e. route s = ''/quiz'' \<longrightarrow>
          handoffs (dispatch qf e s) \<le> 1
          \<and> (handoffs (dispatch qf e s) = 1 \<longrightarrow>
                (\<exists>k. e = ClickOption k)
                \<and> step s = Questions
                \<and> currentQuestionIndex s + 1 = length (questions_of qf s)
                \<and> score_writes (dispatch qf e s) = 1
                \<and> route (dispatch qf e s) = ''/quiz/results''
                \<and> (\<exists>cs. calls (dispatch qf e s) = cs @
                     [LocalStorage_setItem ''focusFoundersQuizAnswers''
                        (stringify (JArray (map json_of_slot (answers (dispatch qf e s))))),
                      LocalStorage_setItem ''focusFoundersQuizScore''
                        (toString (reduce_sum (answers (dispatch qf e s)))),
                      Router_push ''/quiz/results'']))"
  proof (intro allI impI)
    fix e assume r: "route s = ''/quiz''"
    with pair have u: "underway s" by (simp add: underway_def)
    from first_handoff_dispatch[OF u, of qf e]
    show "handoffs (dispatch qf e s) \<le> 1
          \<and> (handoffs (dispatch qf e s) = 1 \<longrightarrow>
                (\<exists>k. e = ClickOption k)
                \<and> step s = Questions
                \<and> currentQuestionIndex s + 1 = length (questions_of qf s)
                \<and> score_writes (dispatch qf e s) = 1
                \<and> route (dispatch qf e s) = ''/quiz/results''
                \<and> (\<exists>cs. calls (dispatch qf e s) = cs @
                     [LocalStorage_setItem ''focusFoundersQuizAnswers''
                        (stringify (JArray (map json_of_slot (answers (dispatch qf e s))))),
                      LocalStorage_setItem ''focusFoundersQuizScore''
                        (toString (reduce_sum (answers (dispatch qf e s)))),
                      Router_push ''/quiz/results'']))"
    proof
      assume "underway (dispatch qf e s)"
      then show ?thesis by (simp add: underway_def)
    next
      assume c: "completed qf (dispatch qf e s) \<and> (\<exists>k. e = ClickOption k)
             \<and> currentQuestionIndex s + 1 = length (questions_of qf s)"
      then obtain k where k: "e = ClickOption k" by blast
      have q: "step s = Questions"
      proof (rule ccontr)
        assume "step s \<noteq> Questions"
        then have "dispatch qf e s = s" unfolding k by (cases "step s") (simp_all add: dispatch_def)
        with c u show False by (simp add: completed_def underway_def)
      qed
      from c q show ?thesis by (simp add: completed_def)
    qed
  qed
  have handler: "\<And>questions p t.
      (int (currentQuestionIndex t) < int (length questions) - 1 \<longrightarrow>
          calls (handleAnswer questions p t) = calls t @
            [LocalStorage_setItem ''focusFoundersQuizAnswers''
               (stringify (JArray (map json_of_slot (answers (handleAnswer questions p t)))))]
          \<and> score_writes (handleAnswer questions p t) = score_writes t
          \<and> handoffs (handleAnswer questions p t) = handoffs t
          \<and> route (handleAnswer questions p t) = route t)
    \<and> (\<not> int (currentQuestionIndex t) < int (length questions) - 1 \<longrightarrow>
          calls (handleAnswer questions p t) = calls t @
            [LocalStorage_setItem ''focusFoundersQuizAnswers''
               (stringify (JArray (map json_of_slot (answers (handleAnswer questions p t))))),
             LocalStorage_setItem ''focusFoundersQuizScore''
               (toString (reduce_sum (answers (handleAnswer questions p t)))),
             Router_push ''/quiz/results'']
          \<and> score_writes (handleAnswer questions p t) = score_writes t + 1
          \<and> handoffs (handleAnswer questions p t) = handoffs t + 1
          \<and> route (handleAnswer questions p t) = ''/quiz/results'')"
    by (simp add: score_writes_handleAnswer handoffs_handleAnswer route_handleAnswer
        calls_handleAnswer)
  from pair first handler show ?thesis by blast
qed

theorem score_written_with_each_handoff_witness:
  "route (example_session [ClickOption 0, ClickOption 1]) = ''/quiz''
   \<and> handoffs (example_session [ClickOption 0, ClickOption 1]) = 0
   \<and> score_writes (example_session [ClickOption 0, ClickOption 1]) = 0
   \<and> handoffs (dispatch example_bank (ClickOption 2)
        (example_session [ClickOption 0, ClickOption 1])) = 1
   \<and> score_writes (dispatch example_bank (ClickOption 2)
        (example_session [ClickOption 0, ClickOption 1])) = 1
   \<and> route (dispatch example_bank (ClickOption 2)
        (example_session [ClickOption 0, ClickOption 1])) = ''/quiz/results''
   \<and> currentQuestionIndex (example_session [ClickOption 0, ClickOption 1]) + 1
       = length (questions_of example_bank (example_session [ClickOption 0, ClickOption 1]))
   \<and> localStorage (dispatch example_bank (ClickOption 2)
        (example_session [ClickOption 0, ClickOption 1])) ''focusFoundersQuizScore''
       = Some ''7''"
proof -
  let ?a = "example_session [ClickOption 0, ClickOption 1]"
  let ?b = "dispatch example_bank (ClickOption 2) ?a"
  have ra: "route ?a = ''/quiz''" by code_simp
  have hb: "handoffs ?b = 1" by code_simp
  have sb: "localStorage ?b ''focusFoundersQuizScore'' = Some ''7''" by code_simp
  note A = score_written_with_each_handoff[OF example_session_def,
      of "[ClickOption 0, ClickOption 1]"]
  from A have A1: "score_writes ?a = handoffs ?a"
    and A2: "handoffs ?a = 0 \<longleftrightarrow> route ?a = ''/quiz''"
    and A3: "\<forall>e. route ?a = ''/quiz'' \<longrightarrow>
          handoffs (dispatch example_bank e ?a) \<le> 1
          \<and> (handoffs (dispatch example_bank e ?a) = 1 \<longrightarrow>
                currentQuestionIndex ?a + 1 = length (questions_of example_bank ?a)
                \<and> score_writes (dispatch example_bank e ?a) = 1
                \<and> route (dispatch example_bank e ?a) = ''/quiz/results'')"
    by blast+
  from A2 ra have a0: "handoffs ?a = 0" by blast
  from A1 a0 have a1: "score_writes ?a = 0" by simp
  from A3 ra hb have b: "currentQuestionIndex ?a + 1 = length (questions_of example_bank ?a)"
    "score_writes ?b = 1" "route ?b = ''/quiz/results''" by blast+
  from ra a0 a1 hb b sb show ?thesis by blast
qed

text \<open>
  Claim C6, as stated, fails: at the third of five questions the progress value is 60,
  not the fraction 3/5.
\<close>

theorem progress_is_not_the_fraction:
  "currentQuestionIndex third_of_five = 2
   \<and> length (questions_of five_bank third_of_five) = 5
   \<and> progress (questions_of five_bank third_of_five) third_of_five = DFinite 60
   \<and> progress (questions_of five_bank third_of_five) third_of_five
       \<noteq> DFinite (of_nat (currentQuestionIndex third_of_five + 1)
                    / of_nat (length (questions_of five_bank third_of_five)))"
  unfolding third_of_five_progress third_of_five_index third_of_five_questions by simp

text \<open>
  Claim C6, amended. On the questions screen, with the index \<open>i\<close> below the number
  \<open>N\<close> of questions (and \<open>N\<close> below \<open>2 ^ 32\<close>, the bound of an array's length), the
  progress value is a finite double, the percentage \<open>100 * (i + 1) / N\<close> as the
  source's arithmetic computes it: it differs from the exact percentage by at most the
  fraction \<open>1 / 2 ^ 51\<close> of it, and at the last question it is exactly 100. It is a
  function of the index and the question list, computed anew, and no part of the
  state.
\<close>

theorem progress_is_percentage:
  assumes "currentQuestionIndex s < length questions" and "length questions < 2 ^ 32"
  shows "\<exists>p. progress questions s = DFinite p
      \<and> \<bar>p - 100 * (of_nat (currentQuestionIndex s + 1) / of_nat (length questions))\<bar>
          \<le> 100 * (of_nat (currentQuestionIndex s + 1) / of_nat (length questions)) / 2 ^ 51
      \<and> (currentQuestionIndex s + 1 = length questions \<longrightarrow> p = 100)
      \<and> (\<forall>t. currentQuestionIndex t = currentQuestionIndex s
            \<longrightarrow> progress questions t = progress questions s)"
proof -
  define x :: rat where "x = of_nat (currentQuestionIndex s + 1) / of_nat (length questions)"
  from progress_steps[OF assms] obtain q p where
    q: "round_double x = DFinite q" and qe: "\<bar>q - x\<bar> \<le> x / 2 ^ 53"
    and p: "round_double (q * 100) = DFinite p" and pe: "\<bar>p - q * 100\<bar> \<le> q * 100 / 2 ^ 53"
    and pr: "progress questions s = DFinite p"
    unfolding x_def by blast
  have "0 < length questions" using assms(1) by linarith
  then have x_pos: "0 < x" unfolding x_def by (simp add: pos_add_strict)
  have "x / 2 ^ 53 \<le> x" using x_pos by (simp add: field_simps)
  with qe have "q \<le> 2 * x" by linarith
  then have "q * 100 / 2 ^ 53 \<le> 2 * x * 100 / 2 ^ 53" by (simp add: field_simps)
  with pe have 1: "\<bar>p - q * 100\<bar> \<le> 200 * x / 2 ^ 53" by simp
  have "\<bar>q * 100 - 100 * x\<bar> = 100 * \<bar>q - x\<bar>" by (simp add: abs_if)
  with qe have 2: "\<bar>q * 100 - 100 * x\<bar> \<le> 100 * x / 2 ^ 53" by simp
  have "\<bar>p - 100 * x\<bar> \<le> \<bar>p - q * 100\<bar> + \<bar>q * 100 - 100 * x\<bar>" by linarith
  also have "\<dots> \<le> 200 * x / 2 ^ 53 + 100 * x / 2 ^ 53" using 1 2 by linarith
  also have "\<dots> \<le> 100 * x / 2 ^ 51" using x_pos by (simp add: field_simps)
  finally have bound: "\<bar>p - 100 * x\<bar> \<le> 100 * x / 2 ^ 51" .
  have last: "currentQuestionIndex s + 1 = length questions \<longrightarrow> p = 100"
  proof
    assume "currentQuestionIndex s + 1 = length questions"
    then have "x = of_nat (length questions) / of_nat (length questions)"
      unfolding x_def by (simp only:)
    then have "x = of_nat 1" using \<open>0 < length questions\<close> by simp
    with q have "round_double (of_nat 1) = DFinite q" by simp
    moreover have "round_double (of_nat 1) = DFinite (of_nat 1)"
      by (rule round_double_of_nat) simp_all
    ultimately have "q = 1" by simp
    with p have "round_double (of_nat 100) = DFinite p" by simp
    moreover have "round_double (of_nat 100) = DFinite (of_nat 100)"
      by (rule round_double_of_nat) simp_all
    ultimately show "p = 100" by simp
  qed
  have derived: "\<forall>t. currentQuestionIndex t = currentQuestionIndex s
            \<longrightarrow> progress questions t = progress questions s"
    by (simp add: progress_def)
  from pr bound last derived show ?thesis unfolding x_def by blast
qed

theorem progress_is_percentage_witness:
  "currentQuestionIndex third_of_five < length (questions_of five_bank third_of_five)
   \<and> length (questions_of five_bank third_of_five) < 2 ^ 32
   \<and> progress (questions_of five_bank third_of_five) third_of_five = DFinite 60
   \<and> \<bar>60 - 100 * (of_nat (currentQuestionIndex third_of_five + 1)
                      / of_nat (length (questions_of five_bank third_of_five)))\<bar>
       \<le> 100 * (of_nat (currentQuestionIndex third_of_five + 1)
                  / of_nat (length (questions_of five_bank third_of_five)) :: rat) / 2 ^ 51"
proof -
  have h1: "currentQuestionIndex third_of_five < length (questions_of five_bank third_of_five)"
    unfolding third_of_five_index third_of_five_questions by simp
  have h2: "length (questions_of five_bank third_of_five) < 2 ^ 32"
    unfolding third_of_five_questions by simp
  from progress_is_percentage[OF h1 h2] obtain p where
    p: "progress (questions_of five_bank third_of_five) third_of_five = DFinite p"
    and b: "\<bar>p - 100 * (of_nat (currentQuestionIndex third_of_five + 1)
                      / of_nat (length (questions_of five_bank third_of_five)))\<bar>
       \<le> 100 * (of_nat (currentQuestionIndex third_of_five + 1)
                  / of_nat (length (questions_of five_bank third_of_five))) / 2 ^ 51"
    by blast
  from p have "p = 60" unfolding third_of_five_progress by simp
  with b h1 h2 third_of_five_progress show ?thesis by blast
qed

text \<open>
  Claim C7. In every state reached from the mount that shows the questions: if the
  question list of the selected path is not empty, the index is below its length and
  the question on screen is the element at the index; if the list is empty, the index
  is 0, the read at the index is out of range (\<^verbatim>\<open>undefined\<close>) and showing the question
  fails with a TypeError.
\<close>

theorem current_question_in_range:
  assumes "s = run qf es (mount ls ss)" and "step s = Questions"
  shows "(questions_of qf s \<noteq> [] \<longrightarrow>
            currentQuestionIndex s < length (questions_of qf s)
            \<and> render_question (questions_of qf s) s
                = Inr (questions_of qf s ! currentQuestionIndex s))
    \<and> (questions_of qf s = [] \<longrightarrow>
            currentQuestionIndex s = 0
            \<and> currentQuestion (questions_of qf s) s = None
            \<and> render_question (questions_of qf s) s = Inl TypeError)"
proof -
  from index_in_range_run[of qf es ls ss] assms
  have i: "currentQuestionIndex s = 0 \<or> currentQuestionIndex s < length (questions_of qf s)"
    by simp
  show ?thesis
  proof (cases "questions_of qf s = []")
    case True
    with i have "currentQuestionIndex s = 0" by simp
    then show ?thesis using True by (simp add: render_question_def currentQuestion_def)
  next
    case False
    with i have "currentQuestionIndex s < length (questions_of qf s)" by auto
    then show ?thesis using False by (simp add: render_question_Inr)
  qed
qed

text \<open>An empty question bank beside the example bank.\<close>

theorem current_question_in_range_witness:
  "step (example_session [ClickOption 0, ClickOption 1]) = Questions
   \<and> questions_of example_bank (example_session [ClickOption 0, ClickOption 1]) \<noteq> []
   \<and> currentQuestionIndex (example_session [ClickOption 0, ClickOption 1]) = 2
   \<and> render_question (questions_of example_bank (example_session [ClickOption 0, ClickOption 1]))
        (example_session [ClickOption 0, ClickOption 1]) = Inr example_question
   \<and> step (run (\<lambda>b g. []) [ClickStart, ClickBusinessType ''freelancer'', ClickGrowthStage ''startup'']
        (mount Map.empty Map.empty)) = Questions
   \<and> questions_of (\<lambda>b g. []) (run (\<lambda>b g. [])
        [ClickStart, ClickBusinessType ''freelancer'', ClickGrowthStage ''startup'']
        (mount Map.empty Map.empty)) = []
   \<and> render_question (questions_of (\<lambda>b g. []) (run (\<lambda>b g. [])
        [ClickStart, ClickBusinessType ''freelancer'', ClickGrowthStage ''startup'']
        (mount Map.empty Map.empty)))
       (run (\<lambda>b g. []) [ClickStart, ClickBusinessType ''freelancer'', ClickGrowthStage ''startup'']
        (mount Map.empty Map.empty)) = Inl TypeError"
proof -
  let ?a = "example_session [ClickOption 0, ClickOption 1]"
  let ?e = "run (\<lambda>b g. []) [ClickStart, ClickBusinessType ''freelancer'', ClickGrowthStage ''startup'']
        (mount Map.empty Map.empty)"
  have sa: "step ?a = Questions" by code_simp
  have ia: "currentQuestionIndex ?a = 2" by code_simp
  have qa: "questions_of example_bank ?a = [example_question, example_question, example_question]"
    by (simp add: questions_of_def example_bank_def)
  have na: "questions_of example_bank ?a \<noteq> []" unfolding qa by simp
  have se: "step ?e = Questions" by code_simp
  have qe: "questions_of (\<lambda>b g. []) ?e = []" by (simp add: questions_of_def)
  from current_question_in_range[OF example_session_def sa] na
  have "render_question (questions_of example_bank ?a) ?a
          = Inr (questions_of example_bank ?a ! currentQuestionIndex ?a)" by blast
  then have ra: "render_question (questions_of example_bank ?a) ?a = Inr example_question"
    unfolding ia unfolding qa by simp
  from current_question_in_range[OF refl se] qe
  have re: "render_question (questions_of (\<lambda>b g. []) ?e) ?e = Inl TypeError" by blast
  from sa na ia ra se qe re show ?thesis by blast
qed

text \<open>
  Claim C8, as stated, fails: after two answers and two steps back the list has two
  entries and the index is 0.
\<close>

theorem length_bound_broken_by_back:
  "\<not> length (answers (example_session [ClickOption 0, ClickOption 1, ClickPrevious, ClickPrevious]))
       \<le> currentQuestionIndex
            (example_session [ClickOption 0, ClickOption 1, ClickPrevious, ClickPrevious]) + 1"
proof -
  let ?s = "example_session [ClickOption 0, ClickOption 1, ClickPrevious, ClickPrevious]"
  have a: "answers ?s = [Points 2, Points 4]" by code_simp
  have i: "currentQuestionIndex ?s = 0" by code_simp
  show ?thesis unfolding a i by simp
qed

text \<open>
  Claim C8, amended. In every state reached from the mount the index is at most the
  length of the list of answers, every slot of the list holds a point value, and on
  the questions screen of a non-empty question list the list is no longer than the
  question list. The bound "length at most index + 1" holds in every state reached
  without a click on "previous", and it is kept by every click other than "previous"
  at an index above 0.
\<close>

theorem index_within_recorded_answers:
  assumes "s = run qf es (mount ls ss)"
  shows "currentQuestionIndex s \<le> length (answers s)
    \<and> (\<forall>j < length (answers s). element (answers s) j \<noteq> None)
    \<and> (step s = Questions \<longrightarrow> questions_of qf s \<noteq> [] \<longrightarrow>
          length (answers s) \<le> length (questions_of qf s))
    \<and> (ClickPrevious \<notin> set es \<longrightarrow> length (answers s) \<le> currentQuestionIndex s + 1)
    \<and> (\<forall>t e. length (answers t) \<le> currentQuestionIndex t + 1 \<longrightarrow>
          (e \<noteq> ClickPrevious \<or> currentQuestionIndex t = 0) \<longrightarrow>
          length (answers (dispatch qf e t)) \<le> currentQuestionIndex (dispatch qf e t) + 1)"
proof -
  have 1: "recorded (answers s) \<and> currentQuestionIndex s \<le> length (answers s)"
    unfolding assms by (rule no_gap_run)
  have 2: "\<forall>j < length (answers s). element (answers s) j \<noteq> None"
    using 1 by (simp add: recorded_element)
  have 3: "step s = Questions \<longrightarrow> questions_of qf s \<noteq> [] \<longrightarrow>
          length (answers s) \<le> length (questions_of qf s)"
    unfolding assms by (rule length_bound_run)
  have 4: "ClickPrevious \<notin> set es \<longrightarrow> length (answers s) \<le> currentQuestionIndex s + 1"
  proof
    assume "ClickPrevious \<notin> set es"
    moreover have "length (answers (mount ls ss)) \<le> currentQuestionIndex (mount ls ss) + 1"
      by (simp add: mount_def)
    ultimately show "length (answers s) \<le> currentQuestionIndex s + 1"
      unfolding assms by (rule length_le_index_run)
  qed
  have 5: "\<forall>t e. length (answers t) \<le> currentQuestionIndex t + 1 \<longrightarrow>
          (e \<noteq> ClickPrevious \<or> currentQuestionIndex t = 0) \<longrightarrow>
          length (answers (dispatch qf e t)) \<le> currentQuestionIndex (dispatch qf e t) + 1"
    using length_le_index_dispatch by blast
  from 1 2 3 4 5 show ?thesis by blast
qed

theorem index_within_recorded_answers_witness:
  "currentQuestionIndex (example_session [ClickOption 0, ClickOption 1, ClickPrevious, ClickPrevious])
     \<le> length (answers (example_session [ClickOption 0, ClickOption 1, ClickPrevious, ClickPrevious]))
   \<and> element (answers (example_session [ClickOption 0, ClickOption 1, ClickPrevious, ClickPrevious])) 1
       \<noteq> None
   \<and> length (answers (example_session [ClickOption 0, ClickOption 1, ClickPrevious, ClickPrevious]))
       \<le> length (questions_of example_bank
            (example_session [ClickOption 0, ClickOption 1, ClickPrevious, ClickPrevious]))
   \<and> length (answers (example_session [ClickOption 0, ClickOption 1]))
       \<le> currentQuestionIndex (example_session [ClickOption 0, ClickOption 1]) + 1
   \<and> length (answers (dispatch example_bank (ClickOption 2)
          (example_session [ClickOption 0, ClickOption 1])))
       \<le> currentQuestionIndex (dispatch example_bank (ClickOption 2)
          (example_session [ClickOption 0, ClickOption 1])) + 1"
proof -
  let ?s = "example_session [ClickOption 0, ClickOption 1, ClickPrevious, ClickPrevious]"
  let ?a = "example_session [ClickOption 0, ClickOption 1]"
  note S = index_within_recorded_answers[OF example_session_def,
      of "[ClickOption 0, ClickOption 1, ClickPrevious, ClickPrevious]"]
  note A = index_within_recorded_answers[OF example_session_def,
      of "[ClickOption 0, ClickOption 1]"]
  have l: "length (answers ?s) = 2" by code_simp
  have st: "step ?s = Questions" by code_simp
  have q: "questions_of example_bank ?s \<noteq> []"
    by (simp add: questions_of_def example_bank_def)
  have np: "ClickPrevious \<notin> set ([ClickStart, ClickBusinessType ''freelancer'',
      ClickGrowthStage ''startup''] @ [ClickOption 0, ClickOption 1])" by simp
  from S have 1: "currentQuestionIndex ?s \<le> length (answers ?s)" by blast
  from S have "\<forall>j < length (answers ?s). element (answers ?s) j \<noteq> None" by blast
  then have 2: "element (answers ?s) 1 \<noteq> None" unfolding l by simp
  from S st q have 3: "length (answers ?s) \<le> length (questions_of example_bank ?s)" by blast
  from A np have 4: "length (answers ?a) \<le> currentQuestionIndex ?a + 1" by blast
  from A have "\<forall>t e. length (answers t) \<le> currentQuestionIndex t + 1 \<longrightarrow>
          (e \<noteq> ClickPrevious \<or> currentQuestionIndex t = 0) \<longrightarrow>
          length (answers (dispatch example_bank e t))
            \<le> currentQuestionIndex (dispatch example_bank e t) + 1" by blast
  from this[rule_format, of ?a "ClickOption 2"] 4
  have 5: "length (answers (dispatch example_bank (ClickOption 2) ?a))
       \<le> currentQuestionIndex (dispatch example_bank (ClickOption 2) ?a) + 1" by simp
  from 1 2 3 4 5 show ?thesis by blast
qed

text \<open>
  Claim C9, as stated, fails: the completed example run has written nothing to
  \<^verbatim>\<open>sessionStorage\<close>, and the page opened in the next browser session still finds the
  path, the answers and the score.
\<close>

theorem quiz_data_outlives_session:
  "sessionStorage (example_session [ClickOption 0, ClickOption 1, ClickOption 2])
       ''focusFoundersQuizPath'' = None
   \<and> sessionStorage (example_session [ClickOption 0, ClickOption 1, ClickOption 2])
       ''focusFoundersQuizAnswers'' = None
   \<and> sessionStorage (example_session [ClickOption 0, ClickOption 1, ClickOption 2])
       ''focusFoundersQuizScore'' = None
   \<and> localStorage (next_session (example_session [ClickOption 0, ClickOption 1, ClickOption 2]))
       ''focusFoundersQuizPath'' \<noteq> None
   \<and> localStorage (next_session (example_session [ClickOption 0, ClickOption 1, ClickOption 2]))
       ''focusFoundersQuizAnswers'' = Some ''[2,4,1]''
   \<and> localStorage (next_session (example_session [ClickOption 0, ClickOption 1, ClickOption 2]))
       ''focusFoundersQuizScore'' = Some ''7''"
proof -
  let ?s = "example_session [ClickOption 0, ClickOption 1, ClickOption 2]"
  have "sessionStorage ?s = Map.empty"
    unfolding example_session_def by (simp add: sessionStorage_run mount_def)
  then have 1: "sessionStorage ?s ''focusFoundersQuizPath'' = None"
    and 2: "sessionStorage ?s ''focusFoundersQuizAnswers'' = None"
    and 3: "sessionStorage ?s ''focusFoundersQuizScore'' = None" by simp_all
  have n: "localStorage (next_session ?s) = localStorage ?s"
    by (simp add: next_session_def mount_def)
  have 4: "localStorage ?s ''focusFoundersQuizPath'' \<noteq> None" by code_simp
  have 5: "localStorage ?s ''focusFoundersQuizAnswers'' = Some ''[2,4,1]''" by code_simp
  have 6: "localStorage ?s ''focusFoundersQuizScore'' = Some ''7''" by code_simp
  from 1 2 3 4 5 6 show ?thesis unfolding n by blast
qed

text \<open>
  Claim C9, amended. Every write of the page (path, answers, score) goes to
  \<^verbatim>\<open>localStorage\<close>, the storage area that outlives the browser session: no run and
  no handler changes \<^verbatim>\<open>sessionStorage\<close>, the path, the answers and the score are
  found in \<^verbatim>\<open>localStorage\<close> after the handler that writes them, and the next session
  finds \<^verbatim>\<open>localStorage\<close> as the run left it.
\<close>

theorem writes_target_localStorage:
  "sessionStorage (run qf es s) = sessionStorage s
   \<and> localStorage (next_session (run qf es s)) = localStorage (run qf es s)
   \<and> sessionStorage (selectGrowthStage g s) = sessionStorage s
   \<and> localStorage (selectGrowthStage g s) ''focusFoundersQuizPath''
       = Some (stringify (JObject [(''businessType'', json_of_selection (selectedBusinessType s)),
                                   (''growthStage'', JString g)]))
   \<and> sessionStorage (handleAnswer questions p s) = sessionStorage s
   \<and> localStorage (handleAnswer questions p s) ''focusFoundersQuizAnswers''
       = Some (stringify (JArray (map json_of_slot (answers (handleAnswer questions p s)))))
   \<and> (\<not> int (currentQuestionIndex s) < int (length questions) - 1 \<longrightarrow>
        localStorage (handleAnswer questions p s) ''focusFoundersQuizScore''
         = Some (toString (reduce_sum (answers (handleAnswer questions p s)))))"
proof -
  have 1: "sessionStorage (run qf es s) = sessionStorage s" by (rule sessionStorage_run)
  have 2: "localStorage (next_session (run qf es s)) = localStorage (run qf es s)"
    by (simp add: next_session_def mount_def)
  have 3: "sessionStorage (selectGrowthStage g s) = sessionStorage s"
    by (simp add: handler_defs Let_def)
  have 4: "localStorage (selectGrowthStage g s) ''focusFoundersQuizPath''
       = Some (stringify (JObject [(''businessType'', json_of_selection (selectedBusinessType s)),
                                   (''growthStage'', JString g)]))"
    by (simp add: handler_defs Let_def)
  have 5: "sessionStorage (handleAnswer questions p s) = sessionStorage s"
    by (simp add: handler_defs Let_def)
  have 6: "localStorage (handleAnswer questions p s) ''focusFoundersQuizAnswers''
       = Some (stringify (JArray (map json_of_slot (answers (handleAnswer questions p s)))))"
    by (simp add: handler_defs Let_def)
  have 7: "\<not> int (currentQuestionIndex s) < int (length questions) - 1 \<longrightarrow>
        localStorage (handleAnswer questions p s) ''focusFoundersQuizScore''
         = Some (toString (reduce_sum (answers (handleAnswer questions p s))))"
    by (simp add: handler_defs Let_def)
  from 1 2 3 4 5 6 7 show ?thesis by blast
qed

theorem writes_target_localStorage_witness:
  "\<not> int (currentQuestionIndex (example_session [ClickOption 0, ClickOption 1]))
       < int (length (example_bank (Some ''freelancer'') (Some ''startup''))) - 1
   \<and> localStorage (handleAnswer (example_bank (Some ''freelancer'') (Some ''startup'')) 1
         (example_session [ClickOption 0, ClickOption 1])) ''focusFoundersQuizScore'' = Some ''7''
   \<and> sessionStorage (handleAnswer (example_bank (Some ''freelancer'') (Some ''startup'')) 1
         (example_session [ClickOption 0, ClickOption 1])) = Map.empty"
proof -
  let ?a = "example_session [ClickOption 0, ClickOption 1]"
  let ?qs = "example_bank (Some ''freelancer'') (Some ''startup'')"
  note W = writes_target_localStorage[of example_bank "[]" ?a "''startup''" ?qs 1]
  have i: "currentQuestionIndex ?a = 2" by code_simp
  have h: "\<not> int (currentQuestionIndex ?a) < int (length ?qs) - 1"
    unfolding i by (simp add: example_bank_def)
  have e: "sessionStorage ?a = Map.empty"
    unfolding example_session_def by (simp add: sessionStorage_run mount_def)
  have v: "toString (reduce_sum (answers (handleAnswer ?qs 1 ?a))) = ''7''" by code_simp
  from W h have "localStorage (handleAnswer ?qs 1 ?a) ''focusFoundersQuizScore''
         = Some (toString (reduce_sum (answers (handleAnswer ?qs 1 ?a))))" by blast
  then have 1: "localStorage (handleAnswer ?qs 1 ?a) ''focusFoundersQuizScore'' = Some ''7''"
    unfolding v .
  from W have "sessionStorage (handleAnswer ?qs 1 ?a) = sessionStorage ?a" by blast
  then have 2: "sessionStorage (handleAnswer ?qs 1 ?a) = Map.empty" unfolding e .
  from h 1 2 show ?thesis by blast
qed

end
